theory Spec2Isabelle
  imports Complex_Main "HOL-Library.Sublist" "HOL-Library.Multiset"
begin

section \<open>JavaScript numbers\<close>

text \<open>
  The TypeScript sources compute with the JavaScript type \<open>number\<close>, the IEEE-754
  double.  A value is \<open>NaN\<close>, an infinity, the negative zero \<open>NZero\<close>, or \<open>Fin x\<close>
  for a real \<open>x\<close> (\<open>Fin 0\<close> is the positive zero).  The arithmetic operators round
  the exact result to the nearest double, ties to the even significand, with gradual
  underflow, overflow to an infinity and a signed zero, as the language prescribes.
  \<open>Fin\<close> may hold any real; the doubles are the values that rounding leaves as they
  are.  Wall-clock readings (\<open>Date.now()\<close>), millisecond settings and counters are
  integers in the sources and are \<open>int\<close> or \<open>nat\<close> here.
\<close>

datatype jsnum = NaN | NInf | NZero | Fin real | PInf

text \<open>
  The binary exponent of a positive real: \<open>ilog2 r\<close> is the \<open>e\<close> with
  \<open>2 ^ e \<le> r < 2 ^ (e + 1)\<close>.  \<open>ilog2_up\<close> counts halvings, for \<open>r \<ge> 1\<close>.
\<close>

function ilog2_up :: "real \<Rightarrow> int" where
  "ilog2_up r = (if r < 2 then 0 else 1 + ilog2_up (r / 2))"
  by pat_completeness auto
termination
proof (relation "measure (\<lambda>r. nat \<lfloor>r\<rfloor>)")
  show "wf (measure (\<lambda>r. nat \<lfloor>r\<rfloor>))" by simp
next
  fix r :: real
  assume "\<not> r < 2"
  then have "r / 2 \<le> r - 1" by simp
  then have "\<lfloor>r / 2\<rfloor> \<le> \<lfloor>r - 1\<rfloor>" by (rule floor_mono)
  moreover have "0 < \<lfloor>r\<rfloor>" using \<open>\<not> r < 2\<close> by simp
  ultimately show "(r / 2, r) \<in> measure (\<lambda>r. nat \<lfloor>r\<rfloor>)" by simp
qed

declare ilog2_up.simps [simp del]

definition ilog2 :: "real \<Rightarrow> int" where
  "ilog2 r =
     (if 1 \<le> r then ilog2_up r
      else let k = ilog2_up (1 / r) in if 2 powi (- k) \<le> r then - k else - k - 1)"

text \<open>Rounding to the nearest integer, a tie to the even one.\<close>

definition rhe :: "real \<Rightarrow> int" where
  "rhe q =
     (let f = \<lfloor>q\<rfloor>; d = q - of_int f
      in if d < 1 / 2 then f else if 1 / 2 < d then f + 1 else if even f then f else f + 1)"

fun js_neg :: "jsnum \<Rightarrow> jsnum" where
  "js_neg NaN = NaN"
| "js_neg NInf = PInf"
| "js_neg NZero = Fin 0"
| "js_neg (Fin x) = (if x = 0 then NZero else Fin (- x))"
| "js_neg PInf = NInf"

text \<open>
  Rounding a positive real to a double.  The significand has 53 bits, so the spacing of
  the doubles at exponent \<open>e\<close> is \<open>2 ^ (e - 52)\<close>; below \<open>2 ^ - 1022\<close> the spacing
  stays \<open>2 ^ - 1074\<close> (subnormal numbers), and a rounded value of \<open>2 ^ 1024\<close> or more
  is an overflow.  \<open>rnd\<close> rounds any real: a negative real rounds as its mirror image,
  so a negative result that underflows is the negative zero.
\<close>

definition round_pos :: "real \<Rightarrow> jsnum" where
  "round_pos r =
     (let e = max (ilog2 r) (- 1022);
          quantum = 2 powi (e - 52);
          x = of_int (rhe (r / quantum)) * quantum
      in if 2 powi 1024 \<le> x then PInf else Fin x)"

definition rnd :: "real \<Rightarrow> jsnum" where
  "rnd r = (if r = 0 then Fin 0 else if 0 < r then round_pos r else js_neg (round_pos (- r)))"

text \<open>The sign bit and the value of a finite number.\<close>

fun sign_bit :: "jsnum \<Rightarrow> bool" where
  "sign_bit NaN = False"
| "sign_bit NInf = True"
| "sign_bit NZero = True"
| "sign_bit (Fin x) = (x < 0)"
| "sign_bit PInf = False"

fun finite_val :: "jsnum \<Rightarrow> real option" where
  "finite_val NZero = Some 0"
| "finite_val (Fin x) = Some x"
| "finite_val NaN = None"
| "finite_val NInf = None"
| "finite_val PInf = None"

definition signed_zero :: "bool \<Rightarrow> jsnum" where
  "signed_zero negative = (if negative then NZero else Fin 0)"

definition signed_inf :: "bool \<Rightarrow> jsnum" where
  "signed_inf negative = (if negative then NInf else PInf)"

text \<open>
  Addition.  An exact sum of zero is the positive zero unless both operands are the
  negative zero; opposite infinities give \<open>NaN\<close>.
\<close>

definition js_add :: "jsnum \<Rightarrow> jsnum \<Rightarrow> jsnum" where
  "js_add a b =
     (if a = NaN \<or> b = NaN then NaN
      else case (finite_val a, finite_val b) of
             (Some x, Some y) \<Rightarrow>
               if x + y = 0 then signed_zero (sign_bit a \<and> sign_bit b) else rnd (x + y)
           | (Some x, None) \<Rightarrow> b
           | (None, Some y) \<Rightarrow> a
           | (None, None) \<Rightarrow> if a = b then a else NaN)"

definition js_sub :: "jsnum \<Rightarrow> jsnum \<Rightarrow> jsnum" where
  "js_sub a b = js_add a (js_neg b)"

text \<open>
  Multiplication and division.  The sign of the result is the exclusive or of the sign
  bits; zero times an infinity, zero by zero and an infinity by an infinity give \<open>NaN\<close>.
\<close>

definition js_mul :: "jsnum \<Rightarrow> jsnum \<Rightarrow> jsnum" where
  "js_mul a b =
     (if a = NaN \<or> b = NaN then NaN
      else
        let negative = (sign_bit a \<noteq> sign_bit b)
        in case (finite_val a, finite_val b) of
             (Some x, Some y) \<Rightarrow> if x * y = 0 then signed_zero negative else rnd (x * y)
           | (Some x, None) \<Rightarrow> if x = 0 then NaN else signed_inf negative
           | (None, Some y) \<Rightarrow> if y = 0 then NaN else signed_inf negative
           | (None, None) \<Rightarrow> signed_inf negative)"

definition js_div :: "jsnum \<Rightarrow> jsnum \<Rightarrow> jsnum" where
  "js_div a b =
     (if a = NaN \<or> b = NaN then NaN
      else
        let negative = (sign_bit a \<noteq> sign_bit b)
        in case (finite_val a, finite_val b) of
             (Some x, Some y) \<Rightarrow>
               if y = 0 then (if x = 0 then NaN else signed_inf negative)
               else if x = 0 then signed_zero negative
               else rnd (x / y)
           | (Some x, None) \<Rightarrow> signed_zero negative
           | (None, Some y) \<Rightarrow> signed_inf negative
           | (None, None) \<Rightarrow> NaN)"

fun js_abs :: "jsnum \<Rightarrow> jsnum" where
  "js_abs NaN = NaN"
| "js_abs NInf = PInf"
| "js_abs NZero = Fin 0"
| "js_abs (Fin x) = Fin \<bar>x\<bar>"
| "js_abs PInf = PInf"

text \<open>
  The relational operators; each is false as soon as an operand is \<open>NaN\<close>, and the two
  zeros compare equal.
\<close>

fun js_lt :: "jsnum \<Rightarrow> jsnum \<Rightarrow> bool" where
  "js_lt NaN _ = False"
| "js_lt _ NaN = False"
| "js_lt (Fin x) (Fin y) = (x < y)"
| "js_lt (Fin x) NZero = (x < 0)"
| "js_lt NZero (Fin y) = (0 < y)"
| "js_lt NZero NZero = False"
| "js_lt _ NInf = False"
| "js_lt NInf _ = True"
| "js_lt PInf _ = False"
| "js_lt _ PInf = True"

fun js_le :: "jsnum \<Rightarrow> jsnum \<Rightarrow> bool" where
  "js_le NaN _ = False"
| "js_le _ NaN = False"
| "js_le (Fin x) (Fin y) = (x \<le> y)"
| "js_le (Fin x) NZero = (x \<le> 0)"
| "js_le NZero (Fin y) = (0 \<le> y)"
| "js_le NZero NZero = True"
| "js_le NInf _ = True"
| "js_le _ PInf = True"
| "js_le _ NInf = False"
| "js_le PInf _ = False"

definition js_gt :: "jsnum \<Rightarrow> jsnum \<Rightarrow> bool" where
  "js_gt a b = js_lt b a"

definition js_ge :: "jsnum \<Rightarrow> jsnum \<Rightarrow> bool" where
  "js_ge a b = js_le b a"

fun isNaN :: "jsnum \<Rightarrow> bool" where
  "isNaN NaN = True"
| "isNaN _ = False"

fun isFinite :: "jsnum \<Rightarrow> bool" where
  "isFinite (Fin _) = True"
| "isFinite NZero = True"
| "isFinite _ = False"

text \<open>
  The doubles among the numbers of the model are the values that rounding leaves as they
  are; \<open>max_double\<close> is the largest of them.
\<close>

fun is_double :: "jsnum \<Rightarrow> bool" where
  "is_double (Fin x) = (rnd x = Fin x)"
| "is_double _ = True"

definition max_double :: real where
  "max_double = (2 ^ 53 - 1) * 2 powi 971"

section \<open>Configuration (src/config/env.ts)\<close>

text \<open>
  The settings the three components read from \<open>env\<close>.  The schema of env.ts makes the
  millisecond settings and the depth level count positive integers and the thresholds
  positive finite numbers; \<open>env_valid\<close> is that schema.
\<close>

record Env =
  SPOT_RETURN_WINDOW_MS :: int
  SPOT_MOVE_THRESHOLD_BPS :: real
  SPOT_BUFFER_SAMPLE_MS :: int
  POLYMARKET_TOKEN_ID :: string
  POLY_SNAPSHOT_INTERVAL_MS :: int
  POLY_DEPTH_LEVELS :: nat
  ARB_MIN_POLY_DEPTH :: real
  ARB_MAX_POLY_SPREAD_BPS :: real
  ARB_MIN_EDGE_BPS :: real
  ARB_COOLDOWN_MS :: int

definition env_valid :: "Env \<Rightarrow> bool" where
  "env_valid env =
     (0 < SPOT_RETURN_WINDOW_MS env \<and> 0 < SPOT_MOVE_THRESHOLD_BPS env \<and>
      0 < SPOT_BUFFER_SAMPLE_MS env \<and> 0 < POLY_SNAPSHOT_INTERVAL_MS env \<and>
      0 < POLY_DEPTH_LEVELS env \<and> 0 < ARB_MIN_POLY_DEPTH env \<and>
      0 < ARB_MAX_POLY_SPREAD_BPS env \<and> 0 < ARB_MIN_EDGE_BPS env \<and>
      0 < ARB_COOLDOWN_MS env)"

text \<open>The defaults of the schema.\<close>

definition default_env :: Env where
  "default_env =
     \<lparr> SPOT_RETURN_WINDOW_MS = 60000, SPOT_MOVE_THRESHOLD_BPS = 50,
       SPOT_BUFFER_SAMPLE_MS = 250, POLYMARKET_TOKEN_ID = ''tok'',
       POLY_SNAPSHOT_INTERVAL_MS = 5000, POLY_DEPTH_LEVELS = 10,
       ARB_MIN_POLY_DEPTH = 50, ARB_MAX_POLY_SPREAD_BPS = 80,
       ARB_MIN_EDGE_BPS = 20, ARB_COOLDOWN_MS = 15000 \<rparr>"

section \<open>Signal engine (src/strategy/latency\_signal.ts)\<close>

datatype Direction = Up | Down

datatype DiscardReason =
  no_poly_snapshot | wide_spread | low_depth | cooldown | insufficient_edge

record PolySnapshot =
  tokenId :: string
  midPrice :: jsnum
  spreadBps :: jsnum
  depthTopN :: jsnum
  timestamp :: int

record ArbSignal =
  sigTimestamp :: int
  spotSymbol :: string
  spotPrice :: jsnum
  spotMoveBps :: jsnum
  spotDirection :: Direction
  polyTokenId :: string
  polyMidPrice :: jsnum
  polySpreadBps :: jsnum
  polyDepth :: jsnum
  edgeBps :: jsnum
  reason :: string

text \<open>A value of a log payload (\<open>Record<string, unknown>\<close> in the source).\<close>

datatype jsval = VStr string | VNum jsnum | VInt int | VDir Direction

text \<open>
  What one call of the engine hands to the logger: \<open>logDiscard(reason, data)\<close>,
  \<open>emitSignal(signal)\<close>, or the debug line of \<open>updatePolySnapshot\<close>.
\<close>

datatype engine_event =
  Discard DiscardReason "(string \<times> jsval) list"
| Signal ArbSignal
| PolyUpdate string jsnum nat

text \<open>The mutable fields of \<open>LatencySignalEngine\<close>.\<close>

record engine =
  polySnapshots :: "PolySnapshot list"
  lastSignalTime :: int

definition engine_init :: engine where
  "engine_init = \<lparr> polySnapshots = [], lastSignalTime = 0 \<rparr>"

definition snapshotWindowMs :: int where
  "snapshotWindowMs = 60000"

text \<open>\<open>updatePolySnapshot\<close>; \<open>now\<close> is the reading of \<open>Date.now()\<close>.\<close>

definition updatePolySnapshot :: "int \<Rightarrow> engine \<Rightarrow> PolySnapshot \<Rightarrow> engine \<times> engine_event list" where
  "updatePolySnapshot now e snapshot =
     (let pushed = polySnapshots e @ [snapshot];
          cutoff = now - snapshotWindowMs;
          kept = filter (\<lambda>s. timestamp s \<ge> cutoff) pushed
      in (e\<lparr>polySnapshots := kept\<rparr>,
          [PolyUpdate (tokenId snapshot) (midPrice snapshot) (length kept)]))"

definition getLatestPolySnapshot :: "engine \<Rightarrow> PolySnapshot option" where
  "getLatestPolySnapshot e =
     (if length (polySnapshots e) = 0 then None
      else Some (polySnapshots e ! (length (polySnapshots e) - 1)))"

definition calculatePolyMovement :: "engine \<Rightarrow> jsnum" where
  "calculatePolyMovement e =
     (if length (polySnapshots e) < 2 then Fin 0
      else
        let oldest = polySnapshots e ! 0;
            latest = polySnapshots e ! (length (polySnapshots e) - 1);
            returnRatio = js_sub (js_div (midPrice latest) (midPrice oldest)) (Fin 1)
        in js_mul returnRatio (Fin 10000))"

text \<open>The four fields every discard payload starts with.\<close>

definition spot_fields :: "string \<Rightarrow> jsnum \<Rightarrow> jsnum \<Rightarrow> Direction \<Rightarrow> (string \<times> jsval) list" where
  "spot_fields symbol price moveBps direction =
     [(''spotSymbol'', VStr symbol), (''spotPrice'', VNum price),
      (''spotMoveBps'', VNum moveBps), (''spotDirection'', VDir direction)]"

text \<open>
  \<open>processSpotMove\<close>: the new engine state and the calls made to \<open>logDiscard\<close> and
  \<open>emitSignal\<close>, in order.  Every \<open>return\<close> of the source is a branch that leaves
  the state as it is.
\<close>

definition processSpotMove ::
  "Env \<Rightarrow> int \<Rightarrow> engine \<Rightarrow> string \<Rightarrow> jsnum \<Rightarrow> jsnum \<Rightarrow> Direction \<Rightarrow> engine \<times> engine_event list" where
  "processSpotMove env now e symbol price moveBps direction =
     (case getLatestPolySnapshot e of
        None \<Rightarrow> (e, [Discard no_poly_snapshot (spot_fields symbol price moveBps direction)])
      | Some latestPoly \<Rightarrow>
          if js_gt (spreadBps latestPoly) (Fin (ARB_MAX_POLY_SPREAD_BPS env)) then
            (e, [Discard wide_spread
                   (spot_fields symbol price moveBps direction @
                    [(''polySpreadBps'', VNum (spreadBps latestPoly)),
                     (''maxAllowed'', VNum (Fin (ARB_MAX_POLY_SPREAD_BPS env)))])])
          else if js_lt (depthTopN latestPoly) (Fin (ARB_MIN_POLY_DEPTH env)) then
            (e, [Discard low_depth
                   (spot_fields symbol price moveBps direction @
                    [(''polyDepth'', VNum (depthTopN latestPoly)),
                     (''minRequired'', VNum (Fin (ARB_MIN_POLY_DEPTH env)))])])
          else
            let timeSinceLastSignal = now - lastSignalTime e in
            if timeSinceLastSignal < ARB_COOLDOWN_MS env then
              (e, [Discard cooldown
                     (spot_fields symbol price moveBps direction @
                      [(''timeSinceLastMs'', VInt timeSinceLastSignal),
                       (''cooldownMs'', VInt (ARB_COOLDOWN_MS env))])])
            else
              let polyMoveBps = calculatePolyMovement e;
                  edge = js_sub (js_abs moveBps) (js_abs polyMoveBps)
              in
              if js_lt edge (Fin (ARB_MIN_EDGE_BPS env)) then
                (e, [Discard insufficient_edge
                       (spot_fields symbol price moveBps direction @
                        [(''polyMoveBps'', VNum polyMoveBps),
                         (''edgeBps'', VNum edge),
                         (''minRequired'', VNum (Fin (ARB_MIN_EDGE_BPS env)))])])
              else
                (e\<lparr>lastSignalTime := now\<rparr>,
                 [Signal \<lparr> sigTimestamp = now, spotSymbol = symbol, spotPrice = price,
                           spotMoveBps = moveBps, spotDirection = direction,
                           polyTokenId = tokenId latestPoly,
                           polyMidPrice = midPrice latestPoly,
                           polySpreadBps = spreadBps latestPoly,
                           polyDepth = depthTopN latestPoly,
                           edgeBps = edge, reason = ''latency_opportunity'' \<rparr>]))"

section \<open>Streaming feed (src/data/spot/binance\_ws.ts)\<close>

record SpotTick =
  symbol :: string
  price :: jsnum
  tsExchange :: int
  tsLocal :: int

record PriceReturn =
  retSymbol :: string
  currentPrice :: jsnum
  pastPrice :: jsnum
  returnBps :: jsnum
  direction :: Direction
  windowMs :: int

text \<open>
  The logger calls of \<open>processTick\<close>: the debug line of every tick (symbol, price,
  latencyMs, tsExchange, tsLocal) and the \<open>spot.move\<close> warning, which carries the
  fields of the return.
\<close>

datatype spot_event =
  SpotTickLog string jsnum int int int
| SpotMove PriceReturn

text \<open>The three maps of \<open>BinanceSpotFeed\<close> that \<open>processTick\<close> reads and writes.\<close>

record spot_feed =
  priceBuffer :: "string \<rightharpoonup> SpotTick list"
  latestPrice :: "string \<rightharpoonup> jsnum"
  lastSampleTime :: "string \<rightharpoonup> int"

definition spot_feed_init :: spot_feed where
  "spot_feed_init =
     \<lparr> priceBuffer = Map.empty, latestPrice = Map.empty, lastSampleTime = Map.empty \<rparr>"

definition calculateReturn :: "SpotTick \<Rightarrow> SpotTick \<Rightarrow> PriceReturn" where
  "calculateReturn current past =
     (let returnRatio = js_sub (js_div (price current) (price past)) (Fin 1);
          retBps = js_mul returnRatio (Fin 10000)
      in \<lparr> retSymbol = symbol current, currentPrice = price current,
            pastPrice = price past, returnBps = retBps,
            direction = (if js_gt retBps (Fin 0) then Up else Down),
            windowMs = tsLocal current - tsLocal past \<rparr>)"

text \<open>
  The loop \<open>while (buffer.length > 0 && buffer[0].tsLocal < cutoff) buffer.shift()\<close>.
\<close>

fun shift_old :: "int \<Rightarrow> SpotTick list \<Rightarrow> SpotTick list" where
  "shift_old cutoff [] = []"
| "shift_old cutoff (t # ts) = (if tsLocal t < cutoff then shift_old cutoff ts else t # ts)"

text \<open>The window of a symbol; a symbol without an entry has no resident tick.\<close>

definition window_of :: "spot_feed \<Rightarrow> string \<Rightarrow> SpotTick list" where
  "window_of s sy = (case priceBuffer s sy of None \<Rightarrow> [] | Some b \<Rightarrow> b)"

text \<open>
  \<open>processTick\<close> is one function in the source; its three stages are named here so
  that the theorems can speak of each.  \<open>last_sample\<close> is
  \<open>lastSampleTime.get(symbol) || 0\<close>, which reads 0 for a symbol never sampled, and
  \<open>shouldSample\<close> is the downsampling test.
\<close>

definition last_sample :: "spot_feed \<Rightarrow> string \<Rightarrow> int" where
  "last_sample s sy = (case lastSampleTime s sy of None \<Rightarrow> 0 | Some v \<Rightarrow> v)"

definition shouldSample :: "Env \<Rightarrow> spot_feed \<Rightarrow> SpotTick \<Rightarrow> bool" where
  "shouldSample env s tick =
     (tsLocal tick - last_sample s (symbol tick) \<ge> SPOT_BUFFER_SAMPLE_MS env)"

text \<open>
  First stage, up to the end of the \<open>if (shouldSample)\<close> block: the latest price is
  always stored; an admitted tick is pushed and the window is pruned.  The array of a
  symbol is shared with the map, so \<open>push\<close> and \<open>shift\<close> update the map's entry.
\<close>

definition admit_tick :: "Env \<Rightarrow> spot_feed \<Rightarrow> SpotTick \<Rightarrow> spot_feed" where
  "admit_tick env s tick =
     (let s1 = s\<lparr>latestPrice := (latestPrice s)(symbol tick \<mapsto> price tick)\<rparr>
      in if shouldSample env s1 tick then
           let buffer = (case priceBuffer s1 (symbol tick) of None \<Rightarrow> [] | Some b \<Rightarrow> b);
               pushed = buffer @ [tick];
               cutoff = tsLocal tick - SPOT_RETURN_WINDOW_MS env
           in s1\<lparr>lastSampleTime := (lastSampleTime s1)(symbol tick \<mapsto> tsLocal tick),
                  priceBuffer := (priceBuffer s1)(symbol tick \<mapsto> shift_old cutoff pushed)\<rparr>
         else s1)"

text \<open>
  Second stage: the return, computed when the window of the symbol holds more than one
  tick, from the tick being processed and \<open>buffer[0]\<close>.
\<close>

definition window_return :: "spot_feed \<Rightarrow> SpotTick \<Rightarrow> PriceReturn option" where
  "window_return s2 tick =
     (case priceBuffer s2 (symbol tick) of
        None \<Rightarrow> None
      | Some buffer \<Rightarrow>
          if length buffer > 1 then
            let oldestTick = buffer ! 0 in Some (calculateReturn tick oldestTick)
          else None)"

text \<open>Third stage: the debug line of the tick and the gated \<open>spot.move\<close> warning.\<close>

definition processTick :: "Env \<Rightarrow> spot_feed \<Rightarrow> SpotTick \<Rightarrow> spot_feed \<times> spot_event list" where
  "processTick env s tick =
     (let s2 = admit_tick env s tick;
          latencyMs = tsLocal tick - tsExchange tick;
          tickLog = SpotTickLog (symbol tick) (price tick) latencyMs (tsExchange tick) (tsLocal tick)
      in case window_return s2 tick of
           None \<Rightarrow> (s2, [tickLog])
         | Some priceReturn \<Rightarrow>
             let minWindowMs = real_of_int (SPOT_RETURN_WINDOW_MS env) * (8 / 10)
             in if real_of_int (windowMs priceReturn) \<ge> minWindowMs \<and>
                   js_ge (js_abs (returnBps priceReturn)) (Fin (SPOT_MOVE_THRESHOLD_BPS env))
                then (s2, [tickLog, SpotMove priceReturn])
                else (s2, [tickLog]))"

text \<open>Ticks are processed one after the other, in arrival order.\<close>

fun process_ticks :: "Env \<Rightarrow> spot_feed \<Rightarrow> SpotTick list \<Rightarrow> spot_feed" where
  "process_ticks env s [] = s"
| "process_ticks env s (t # ts) = process_ticks env (fst (processTick env s t)) ts"

text \<open>
  The invariant of the windows that the proofs carry along: in every window the local
  timestamps increase strictly, and none is later than the last sample time of the symbol.
\<close>

definition spot_inv :: "spot_feed \<Rightarrow> bool" where
  "spot_inv s =
     (\<forall>sy. sorted_wrt (<) (map tsLocal (window_of s sy)) \<and>
           (\<forall>x \<in> set (window_of s sy). tsLocal x \<le> last_sample s sy))"

section \<open>Polling feed (src/data/polymarket/market\_feed.ts)\<close>

record PolyOrderbookLevel =
  lvl_price :: string
  lvl_size :: string

record PolyOrderbook =
  bids :: "PolyOrderbookLevel list"
  asks :: "PolyOrderbookLevel list"

record PolyMarketData =
  md_tokenId :: string
  md_midPrice :: jsnum
  md_bestBid :: jsnum
  md_bestAsk :: jsnum
  md_spreadBps :: jsnum
  md_depthTopN :: jsnum
  md_tsLocal :: int

datatype poll_event =
  PollSkipped
| PollErrorLog string nat int
| PollBackoffLog int nat
| PolySnapshotLog PolyMarketData nat nat
| OrderbookInvalid nat nat
| OrderbookInvalidPrices jsnum jsnum
| FeedStarted
| FeedStopped
| FeedAlreadyRunning

text \<open>
  \<open>Array.prototype.sort\<close> returns the elements it was given, in some order.  With a
  consistent comparator the order is the stable sorted one; when some prices parse to
  \<open>NaN\<close> the comparator \<open>b - a\<close> is not consistent and the language leaves the order
  to the implementation.  The sort is therefore the parameter \<open>srt\<close> of the functions
  below, and \<open>sort_permutes\<close> is what the language guarantees of it in every case.
  \<open>stable_sort\<close>, a stable insertion sort in which a comparator result of \<open>NaN\<close>
  counts as 0, is the sort of the examples, whose prices are all numbers.
\<close>

type_synonym level_sort =
  "(PolyOrderbookLevel \<Rightarrow> PolyOrderbookLevel \<Rightarrow> jsnum) \<Rightarrow> PolyOrderbookLevel list
     \<Rightarrow> PolyOrderbookLevel list"

definition sort_permutes :: "level_sort \<Rightarrow> bool" where
  "sort_permutes srt = (\<forall>cmp xs. mset (srt cmp xs) = mset xs)"

fun insert_sorted :: "('a \<Rightarrow> 'a \<Rightarrow> jsnum) \<Rightarrow> 'a \<Rightarrow> 'a list \<Rightarrow> 'a list" where
  "insert_sorted cmp x [] = [x]"
| "insert_sorted cmp x (y # ys) =
     (if js_gt (cmp y x) (Fin 0) then x # y # ys else y # insert_sorted cmp x ys)"

definition stable_sort :: "('a \<Rightarrow> 'a \<Rightarrow> jsnum) \<Rightarrow> 'a list \<Rightarrow> 'a list" where
  "stable_sort cmp xs = foldl (\<lambda>acc x. insert_sorted cmp x acc) [] xs"

text \<open>
  The built-in \<open>parseFloat\<close> is the parameter \<open>pf\<close> of the functions below: every
  theorem about them holds for whatever number each text parses to.
\<close>

definition sortBidsDesc ::
  "level_sort \<Rightarrow> (string \<Rightarrow> jsnum) \<Rightarrow> PolyOrderbookLevel list \<Rightarrow> PolyOrderbookLevel list" where
  "sortBidsDesc srt pf bs =
     srt (\<lambda>a b. let priceA = pf (lvl_price a); priceB = pf (lvl_price b)
                 in js_sub priceB priceA) bs"

definition sortAsksAsc ::
  "level_sort \<Rightarrow> (string \<Rightarrow> jsnum) \<Rightarrow> PolyOrderbookLevel list \<Rightarrow> PolyOrderbookLevel list" where
  "sortAsksAsc srt pf as =
     srt (\<lambda>a b. let priceA = pf (lvl_price a); priceB = pf (lvl_price b)
                 in js_sub priceA priceB) as"

text \<open>One of the two \<open>for\<close> loops of \<open>calculateDepth\<close>, over the levels it visits.\<close>

fun sum_sizes :: "(string \<Rightarrow> jsnum) \<Rightarrow> PolyOrderbookLevel list \<Rightarrow> jsnum \<Rightarrow> jsnum" where
  "sum_sizes pf [] totalDepth = totalDepth"
| "sum_sizes pf (l # ls) totalDepth =
     (let sz = pf (lvl_size l)
      in sum_sizes pf ls (if \<not> isNaN sz then js_add totalDepth sz else totalDepth))"

definition calculateDepth ::
  "(string \<Rightarrow> jsnum) \<Rightarrow> Env \<Rightarrow> PolyOrderbookLevel list \<Rightarrow> PolyOrderbookLevel list \<Rightarrow> jsnum" where
  "calculateDepth pf env sortedBids sortedAsks =
     (let topN = POLY_DEPTH_LEVELS env;
          afterBids = sum_sizes pf (take (min topN (length sortedBids)) sortedBids) (Fin 0)
      in sum_sizes pf (take (min topN (length sortedAsks)) sortedAsks) afterBids)"

text \<open>
  Reading \<open>sorted[0].price\<close> raises a \<open>TypeError\<close> when the array is empty; the raise
  is a value of the model.
\<close>

datatype js_exn = TypeError

definition first_level :: "PolyOrderbookLevel list \<Rightarrow> js_exn + PolyOrderbookLevel" where
  "first_level ls = (case ls of [] \<Rightarrow> Inl TypeError | l # _ \<Rightarrow> Inr l)"

text \<open>
  \<open>normalizeOrderbook\<close>: a raise, or the returned value (\<open>None\<close> for \<open>null\<close>) with
  the logger calls made.  \<open>now\<close> is the reading of \<open>Date.now()\<close>.
\<close>

definition normalizeOrderbook ::
  "level_sort \<Rightarrow> (string \<Rightarrow> jsnum) \<Rightarrow> Env \<Rightarrow> int \<Rightarrow> PolyOrderbook \<Rightarrow> js_exn + (PolyMarketData option \<times> poll_event list)" where
  "normalizeOrderbook srt pf env now orderbook =
     (if length (bids orderbook) = 0 \<or> length (asks orderbook) = 0 then
        Inr (None, [OrderbookInvalid (length (bids orderbook)) (length (asks orderbook))])
      else
        let sortedBids = sortBidsDesc srt pf (bids orderbook);
            sortedAsks = sortAsksAsc srt pf (asks orderbook)
        in case first_level sortedBids of
             Inl ex \<Rightarrow> Inl ex
           | Inr topBid \<Rightarrow>
              (case first_level sortedAsks of
                 Inl ex \<Rightarrow> Inl ex
               | Inr topAsk \<Rightarrow>
                  let bestBid = pf (lvl_price topBid);
                      bestAsk = pf (lvl_price topAsk)
                  in if isNaN bestBid \<or> isNaN bestAsk \<or>
                        js_le bestBid (Fin 0) \<or> js_le bestAsk (Fin 0)
                     then Inr (None, [OrderbookInvalidPrices bestBid bestAsk])
                     else
                       let mid = js_div (js_add bestBid bestAsk) (Fin 2);
                           spread = js_mul (js_div (js_sub bestAsk bestBid) mid) (Fin 10000);
                           depth = calculateDepth pf env sortedBids sortedAsks
                       in Inr (Some \<lparr> md_tokenId = POLYMARKET_TOKEN_ID env,
                                        md_midPrice = mid, md_bestBid = bestBid,
                                        md_bestAsk = bestAsk, md_spreadBps = spread,
                                        md_depthTopN = depth, md_tsLocal = now \<rparr>, [])))"

text \<open>
  The two best prices \<open>normalizeOrderbook\<close> validates, \<open>parseFloat(sortedBids[0].price)\<close>
  and \<open>parseFloat(sortedAsks[0].price)\<close>, and its test on each of them.
\<close>

definition bestBid_of :: "level_sort \<Rightarrow> (string \<Rightarrow> jsnum) \<Rightarrow> PolyOrderbook \<Rightarrow> jsnum" where
  "bestBid_of srt pf ob = pf (lvl_price (hd (sortBidsDesc srt pf (bids ob))))"

definition bestAsk_of :: "level_sort \<Rightarrow> (string \<Rightarrow> jsnum) \<Rightarrow> PolyOrderbook \<Rightarrow> jsnum" where
  "bestAsk_of srt pf ob = pf (lvl_price (hd (sortAsksAsc srt pf (asks ob))))"

definition invalid_price :: "jsnum \<Rightarrow> bool" where
  "invalid_price p = (isNaN p \<or> js_le p (Fin 0))"

text \<open>
  The mutable fields of \<open>PolymarketFeed\<close>.  \<open>pollTimer\<close> holds the delay of the timer
  armed last, if any.  \<open>baseIntervalMs\<close> is \<open>POLY_SNAPSHOT_INTERVAL_MS\<close>.
\<close>

record feed =
  inFlight :: bool
  isRunning :: bool
  consecutiveErrors :: nat
  currentBackoffMs :: int
  pollTimer :: "int option"

definition feed_init :: feed where
  "feed_init =
     \<lparr> inFlight = False, isRunning = False, consecutiveErrors = 0,
       currentBackoffMs = 0, pollTimer = None \<rparr>"

definition maxBackoffMs :: int where
  "maxBackoffMs = 30000"

definition handlePollError :: "Env \<Rightarrow> feed \<Rightarrow> string \<Rightarrow> feed \<times> poll_event list" where
  "handlePollError env f msg =
     (let n = consecutiveErrors f + 1;
          backoffMs = min (POLY_SNAPSHOT_INTERVAL_MS env * 2 ^ (n - 1)) maxBackoffMs;
          f' = f\<lparr>consecutiveErrors := n, currentBackoffMs := backoffMs\<rparr>
      in (f', PollErrorLog msg n backoffMs #
              (if n > 1 then [PollBackoffLog backoffMs n] else [])))"

definition schedulePoll :: "Env \<Rightarrow> feed \<Rightarrow> feed" where
  "schedulePoll env f =
     (if \<not> isRunning f then f
      else
        let delay = (if currentBackoffMs f > 0 then currentBackoffMs f
                     else POLY_SNAPSHOT_INTERVAL_MS env)
        in f\<lparr>pollTimer := Some delay\<rparr>)"

definition start :: "Env \<Rightarrow> feed \<Rightarrow> feed \<times> poll_event list" where
  "start env f =
     (if isRunning f then (f, [FeedAlreadyRunning])
      else
        (schedulePoll env (f\<lparr>isRunning := True, consecutiveErrors := 0, currentBackoffMs := 0\<rparr>),
         [FeedStarted]))"

definition stop :: "feed \<Rightarrow> feed \<times> poll_event list" where
  "stop f = (f\<lparr>pollTimer := None, isRunning := False\<rparr>, [FeedStopped])"

text \<open>
  \<open>poll\<close> is asynchronous.  It runs without interruption up to \<open>await
  this.client.getOrderbook(...)\<close> (\<open>poll_begin\<close>, whose third result tells whether the
  fetch was initiated) and resumes when the fetch settles (\<open>poll_resume\<close>): with
  \<open>null\<close>, with an orderbook, or with a raise.
\<close>

datatype fetch_result = FetchNull | FetchBook PolyOrderbook | FetchThrows string

definition poll_begin :: "feed \<Rightarrow> feed \<times> poll_event list \<times> bool" where
  "poll_begin f =
     (if inFlight f then (f, [PollSkipped], False)
      else (f\<lparr>inFlight := True\<rparr>, [], True))"

definition poll_resume ::
  "level_sort \<Rightarrow> (string \<Rightarrow> jsnum) \<Rightarrow> Env \<Rightarrow> int \<Rightarrow> feed \<Rightarrow> fetch_result \<Rightarrow> feed \<times> poll_event list" where
  "poll_resume srt pf env now f r =
     (let (f', evs) =
        (case r of
           FetchThrows msg \<Rightarrow> handlePollError env f msg
         | FetchNull \<Rightarrow> handlePollError env f ''No orderbook data returned''
         | FetchBook orderbook \<Rightarrow>
            (case normalizeOrderbook srt pf env now orderbook of
               Inl ex \<Rightarrow> handlePollError env f ''TypeError''
             | Inr (None, nevs) \<Rightarrow>
                 (let (f1, hevs) = handlePollError env f ''Failed to normalize orderbook''
                  in (f1, nevs @ hevs))
             | Inr (Some marketData, nevs) \<Rightarrow>
                 (f\<lparr>consecutiveErrors := 0, currentBackoffMs := 0\<rparr>,
                  nevs @ [PolySnapshotLog marketData (length (bids orderbook))
                                          (length (asks orderbook))])))
      in (f'\<lparr>inFlight := False\<rparr>, evs))"

text \<open>
  A poll ends in an error when the fetch returns \<open>null\<close> or raises, or when the
  orderbook does not normalize.
\<close>

definition poll_failed :: "level_sort \<Rightarrow> (string \<Rightarrow> jsnum) \<Rightarrow> Env \<Rightarrow> int \<Rightarrow> fetch_result \<Rightarrow> bool" where
  "poll_failed srt pf env now r =
     (case r of
        FetchNull \<Rightarrow> True
      | FetchThrows msg \<Rightarrow> True
      | FetchBook ob \<Rightarrow>
          (case normalizeOrderbook srt pf env now ob of
             Inr (Some md, evs) \<Rightarrow> False
           | _ \<Rightarrow> True))"

text \<open>The backoffs set by \<open>n\<close> errors in a row.\<close>

fun backoffs_of_errors :: "Env \<Rightarrow> feed \<Rightarrow> nat \<Rightarrow> int list" where
  "backoffs_of_errors env f 0 = []"
| "backoffs_of_errors env f (Suc n) =
     (let f' = fst (handlePollError env f ''poll failed'')
      in currentBackoffMs f' # backoffs_of_errors env f' n)"

text \<open>
  The feed with its environment.  The body of the timer is \<open>await this.poll();
  this.schedulePoll()\<close>: when the poll is skipped it goes on to \<open>schedulePoll\<close> at once,
  otherwise when the fetch settles.  A timer may fire at any moment (the timers that are
  pending are not tracked, so every interleaving the runtime can produce is covered), and a
  fetch settles only while one is pending.  \<open>fetchesPending\<close> counts the fetches initiated
  and not yet settled, \<open>fetchesStarted\<close> all the fetches initiated so far.
\<close>

datatype poll_action =
  TimerFires | FetchSettles fetch_result int | CallStart | CallStop

record poll_sys =
  theFeed :: feed
  fetchesPending :: nat
  fetchesStarted :: nat
  pollLog :: "poll_event list"

definition poll_sys_init :: poll_sys where
  "poll_sys_init =
     \<lparr> theFeed = feed_init, fetchesPending = 0, fetchesStarted = 0, pollLog = [] \<rparr>"

fun sys_step :: "level_sort \<Rightarrow> (string \<Rightarrow> jsnum) \<Rightarrow> Env \<Rightarrow> poll_sys \<Rightarrow> poll_action \<Rightarrow> poll_sys" where
  "sys_step srt pf env s TimerFires =
     (case poll_begin (theFeed s) of
        (f, evs, True) \<Rightarrow>
          s\<lparr>theFeed := f, fetchesPending := fetchesPending s + 1,
            fetchesStarted := fetchesStarted s + 1, pollLog := pollLog s @ evs\<rparr>
      | (f, evs, False) \<Rightarrow>
          s\<lparr>theFeed := schedulePoll env f, pollLog := pollLog s @ evs\<rparr>)"
| "sys_step srt pf env s (FetchSettles r now) =
     (if fetchesPending s = 0 then s
      else
        case poll_resume srt pf env now (theFeed s) r of
          (f, evs) \<Rightarrow>
            s\<lparr>theFeed := schedulePoll env f, fetchesPending := fetchesPending s - 1,
              pollLog := pollLog s @ evs\<rparr>)"
| "sys_step srt pf env s CallStart =
     (case start env (theFeed s) of
        (f, evs) \<Rightarrow> s\<lparr>theFeed := f, pollLog := pollLog s @ evs\<rparr>)"
| "sys_step srt pf env s CallStop =
     (case stop (theFeed s) of
        (f, evs) \<Rightarrow> s\<lparr>theFeed := f, pollLog := pollLog s @ evs\<rparr>)"

fun sys_run :: "level_sort \<Rightarrow> (string \<Rightarrow> jsnum) \<Rightarrow> Env \<Rightarrow> poll_sys \<Rightarrow> poll_action list \<Rightarrow> poll_sys" where
  "sys_run srt pf env s [] = s"
| "sys_run srt pf env s (a # as) = sys_run srt pf env (sys_step srt pf env s a) as"

text \<open>
  The invariant of the feed with its environment: a fetch is pending exactly when the
  in-flight flag is set, and then it is the only one.
\<close>

definition sys_inv :: "poll_sys \<Rightarrow> bool" where
  "sys_inv s = (fetchesPending s = (if inFlight (theFeed s) then 1 else 0))"

section \<open>The specification's own words, for comparison with the code\<close>

text \<open>
  The counterpart movement as the specification words it: from the oldest and the newest
  entry of the history, 0 for fewer than two entries.
\<close>

definition spec_polyMoveBps :: "PolySnapshot list \<Rightarrow> jsnum" where
  "spec_polyMoveBps h =
     (if length h < 2 then Fin 0
      else js_mul (js_sub (js_div (midPrice (last h)) (midPrice (hd h))) (Fin 1)) (Fin 10000))"

definition spec_edgeBps :: "PolySnapshot list \<Rightarrow> jsnum \<Rightarrow> jsnum" where
  "spec_edgeBps h moveBps = js_sub (js_abs moveBps) (js_abs (spec_polyMoveBps h))"

text \<open>
  The five gates in the order of the specification, each as the condition under which it
  fails.  The gates on the latest snapshot fail only when there is one.
\<close>

definition gate_order :: "DiscardReason list" where
  "gate_order = [no_poly_snapshot, wide_spread, low_depth, cooldown, insufficient_edge]"

fun gate_fails :: "Env \<Rightarrow> int \<Rightarrow> engine \<Rightarrow> jsnum \<Rightarrow> DiscardReason \<Rightarrow> bool" where
  "gate_fails env now e moveBps no_poly_snapshot = (polySnapshots e = [])"
| "gate_fails env now e moveBps wide_spread =
     (polySnapshots e \<noteq> [] \<and>
      js_gt (spreadBps (last (polySnapshots e))) (Fin (ARB_MAX_POLY_SPREAD_BPS env)))"
| "gate_fails env now e moveBps low_depth =
     (polySnapshots e \<noteq> [] \<and>
      js_lt (depthTopN (last (polySnapshots e))) (Fin (ARB_MIN_POLY_DEPTH env)))"
| "gate_fails env now e moveBps cooldown = (now - lastSignalTime e < ARB_COOLDOWN_MS env)"
| "gate_fails env now e moveBps insufficient_edge =
     js_lt (spec_edgeBps (polySnapshots e) moveBps) (Fin (ARB_MIN_EDGE_BPS env))"

section \<open>Example values\<close>

definition snap :: "real \<Rightarrow> real \<Rightarrow> real \<Rightarrow> int \<Rightarrow> PolySnapshot" where
  "snap m sp dp ts =
     \<lparr> tokenId = ''tok'', midPrice = Fin m, spreadBps = Fin sp, depthTopN = Fin dp,
       timestamp = ts \<rparr>"

definition ex_engine :: engine where
  "ex_engine =
     \<lparr> polySnapshots = [snap 100 40 100 90000, snap 110 40 100 95000],
       lastSignalTime = 0 \<rparr>"

definition ex_tick :: "real \<Rightarrow> int \<Rightarrow> SpotTick" where
  "ex_tick p t = \<lparr> symbol = ''BTCUSDT'', price = Fin p, tsExchange = t - 20, tsLocal = t \<rparr>"

text \<open>
  The value of \<open>parseFloat\<close> on the texts of the example orderbooks, and the books:
  the crossed book of the specification, a book whose best bid reads \<open>Infinity\<close>, a
  crossed book of two large prices, the doubles \<open>3 * 2 ^ 1022\<close> and \<open>2 ^ 1023\<close>,
  and a book with a bid whose price is not a number (every text that is not in the table
  parses to \<open>NaN\<close>).  \<open>keep_order\<close> is a sort that exchanges nothing.
\<close>

definition ex_parse :: "string \<Rightarrow> jsnum" where
  "ex_parse t =
     (case map_of [(''99'', Fin 99), (''101'', Fin 101), (''102'', Fin 102),
                   (''100'', Fin 100), (''5'', Fin 5), (''3'', Fin 3), (''4'', Fin 4),
                   (''2'', Fin 2), (''1'', Fin 1), (''0.5'', Fin (1 / 2)),
                   (''0'', Fin 0), (''Infinity'', PInf),
                   (''1.348269851146737e+308'', Fin (3 * 2 ^ 1022)),
                   (''8.98846567431158e+307'', Fin (2 ^ 1023))] t of
        Some v \<Rightarrow> v
      | None \<Rightarrow> NaN)"

definition lvl :: "string \<Rightarrow> string \<Rightarrow> PolyOrderbookLevel" where
  "lvl p q = \<lparr> lvl_price = p, lvl_size = q \<rparr>"

definition ex_book :: PolyOrderbook where
  "ex_book = \<lparr> bids = [lvl ''99'' ''5'', lvl ''101'' ''3''],
                asks = [lvl ''102'' ''4'', lvl ''100'' ''2''] \<rparr>"

definition ex_book_inf :: PolyOrderbook where
  "ex_book_inf = \<lparr> bids = [lvl ''Infinity'' ''1''], asks = [lvl ''0.5'' ''1''] \<rparr>"

definition ex_book_big :: PolyOrderbook where
  "ex_book_big = \<lparr> bids = [lvl ''1.348269851146737e+308'' ''1''],
                    asks = [lvl ''8.98846567431158e+307'' ''1''] \<rparr>"

definition ex_book_nan :: PolyOrderbook where
  "ex_book_nan = \<lparr> bids = [lvl ''0'' ''1'', lvl ''abc'' ''1'', lvl ''0.5'' ''1''],
                    asks = [lvl ''1'' ''1''] \<rparr>"

definition keep_order :: level_sort where
  "keep_order cmp xs = xs"

section \<open>Rounding\<close>

text \<open>
  The binary exponent of a positive real is bounded as its definition intends; a rounding
  is evaluated from the exponent \<open>e\<close> of the real and the integer \<open>n\<close> its
  significand rounds to (\<open>rnd_evalI\<close>); the integers below \<open>2 ^ 53\<close> are
  doubles.
\<close>

lemma two_powi_pos [simp]: "0 < (2::real) powi e"
  by simp

lemma two_powi_Suc: "(2::real) powi (e + 1) = 2 * 2 powi e"
  by (simp add: power_int_add)

lemma two_powi_mono: "a \<le> b \<Longrightarrow> (2::real) powi a \<le> 2 powi b"
  by (rule power_int_increasing) simp_all

lemma two_powi_strict_mono: "a < b \<Longrightarrow> (2::real) powi a < 2 powi b"
  by (rule power_int_strict_increasing) simp_all

lemma ilog2_up_bounds:
  "1 \<le> r \<Longrightarrow> 0 \<le> ilog2_up r \<and> 2 powi (ilog2_up r) \<le> r \<and> r < 2 powi (ilog2_up r + 1)"
proof (induction r rule: ilog2_up.induct)
  case (1 r)
  show ?case
  proof (cases "r < 2")
    case True
    with "1.prems" show ?thesis by (simp add: ilog2_up.simps[of r])
  next
    case False
    then have "1 \<le> r / 2" by simp
    with False "1.IH" have ih: "0 \<le> ilog2_up (r / 2)" "2 powi (ilog2_up (r / 2)) \<le> r / 2"
      "r / 2 < 2 powi (ilog2_up (r / 2) + 1)" by simp_all
    have eq: "ilog2_up r = ilog2_up (r / 2) + 1"
      using False by (simp add: ilog2_up.simps[of r])
    have p1: "(2::real) powi (ilog2_up (r / 2) + 1) = 2 * 2 powi (ilog2_up (r / 2))"
      by (rule two_powi_Suc)
    have p2: "(2::real) powi (ilog2_up (r / 2) + 1 + 1) = 2 * 2 powi (ilog2_up (r / 2) + 1)"
      by (rule two_powi_Suc)
    from ih(1) have "0 \<le> ilog2_up r" by (simp add: eq)
    moreover from ih(2) p1 have "2 powi (ilog2_up r) \<le> r" by (simp add: eq)
    moreover from ih(3) p2 have "r < 2 powi (ilog2_up r + 1)" by (simp add: eq)
    ultimately show ?thesis by simp
  qed
qed

lemma ilog2_bounds:
  assumes "0 < r"
  shows "2 powi (ilog2 r) \<le> r \<and> r < 2 powi (ilog2 r + 1)"
proof (cases "1 \<le> r")
  case True
  then show ?thesis using ilog2_up_bounds[of r] by (simp add: ilog2_def)
next
  case False
  define k where "k = ilog2_up (1 / r)"
  from False assms have "1 \<le> 1 / r" by simp
  then have b: "2 powi k \<le> 1 / r" "1 / r < 2 powi (k + 1)"
    using ilog2_up_bounds[of "1 / r"] by (simp_all add: k_def)
  from b(1) assms have up: "r \<le> 2 powi (- k)"
    by (simp add: power_int_minus field_simps)
  from b(2) assms have lo: "2 powi (- k - 1) < r"
  proof -
    have "- k - 1 = - (k + 1)" by simp
    then have "(2::real) powi (- k - 1) = 1 / 2 powi (k + 1)"
      by (simp only: power_int_minus_divide)
    also have "\<dots> < r" using b(2) assms by (simp add: field_simps)
    finally show ?thesis .
  qed
  show ?thesis
  proof (cases "2 powi (- k) \<le> r")
    case True
    then have e: "ilog2 r = - k" using False by (simp add: ilog2_def k_def Let_def)
    from True up have "r = 2 powi (- k)" by simp
    then have "r < 2 powi (- k + 1)" using two_powi_strict_mono[of "- k" "- k + 1"] by simp
    with True show ?thesis by (simp add: e)
  next
    case F2: False
    then have e: "ilog2 r = - k - 1" using False by (simp add: ilog2_def k_def Let_def)
    from F2 lo show ?thesis by (simp add: e)
  qed
qed

lemma ilog2_eqI:
  assumes "2 powi e \<le> r" "r < 2 powi (e + 1)"
  shows "ilog2 r = e"
proof -
  have "0 < r" using assms(1) two_powi_pos[of e] by linarith
  then have b: "2 powi (ilog2 r) \<le> r" "r < 2 powi (ilog2 r + 1)"
    using ilog2_bounds by simp_all
  have "\<not> ilog2 r + 1 \<le> e"
    using two_powi_mono[of "ilog2 r + 1" e] b(2) assms(1) by linarith
  moreover have "\<not> e + 1 \<le> ilog2 r"
    using two_powi_mono[of "e + 1" "ilog2 r"] b(1) assms(2) by linarith
  ultimately show ?thesis by simp
qed

lemma rhe_of_int [simp]: "rhe (of_int k) = k"
  by (simp add: rhe_def)

lemma rhe_ge_floor: "\<lfloor>q\<rfloor> \<le> rhe q"
  by (simp add: rhe_def Let_def)

lemma rhe_nonneg: "0 \<le> q \<Longrightarrow> 0 \<le> rhe q"
  using rhe_ge_floor[of q] by (simp add: order_trans[of 0 "\<lfloor>q\<rfloor>"])

lemma round_pos_eval:
  assumes "2 powi e \<le> r" "r < 2 powi (e + 1)" "- 1022 \<le> e"
    and "rhe (r / 2 powi (e - 52)) = n"
    and "x = real_of_int n * 2 powi (e - 52)" "x < 2 powi 1024"
  shows "round_pos r = Fin x"
proof -
  have "ilog2 r = e" using assms(1,2) by (rule ilog2_eqI)
  with assms(3) have "max (ilog2 r) (- 1022) = e" by simp
  with assms(4,5,6) show ?thesis by (simp add: round_pos_def Let_def)
qed

lemma rnd_evalI:
  assumes "2 powi e \<le> r" "r < 2 powi (e + 1)" "- 1022 \<le> e"
    and "rhe (r / 2 powi (e - 52)) = n"
    and "x = real_of_int n * 2 powi (e - 52)" "x < 2 powi 1024"
  shows "rnd r = Fin x"
proof -
  have "0 < r" using assms(1) two_powi_pos[of e] by linarith
  then show ?thesis using round_pos_eval[OF assms] by (simp add: rnd_def)
qed

lemma round_pos_class:
  assumes "0 < r"
  shows "(\<exists>x. 0 \<le> x \<and> round_pos r = Fin x) \<or> round_pos r = PInf"
proof -
  let ?q = "2 powi (max (ilog2 r) (- 1022) - 52) :: real"
  have "0 \<le> r / ?q" using assms by simp
  then have "0 \<le> rhe (r / ?q)" by (rule rhe_nonneg)
  then have "0 \<le> real_of_int (rhe (r / ?q)) * ?q" by simp
  then show ?thesis by (auto simp: round_pos_def Let_def)
qed

lemma rnd_neg_evalI:
  assumes "2 powi e \<le> r" "r < 2 powi (e + 1)" "- 1022 \<le> e"
    and "rhe (r / 2 powi (e - 52)) = n"
    and "x = real_of_int n * 2 powi (e - 52)" "x < 2 powi 1024" "x \<noteq> 0"
  shows "rnd (- r) = Fin (- x)"
proof -
  have "0 < r" using assms(1) two_powi_pos[of e] by linarith
  then show ?thesis using round_pos_eval[OF assms(1-6)] assms(7) by (simp add: rnd_def)
qed

text \<open>Integers below \<open>2 ^ 53\<close> are doubles.\<close>

lemma round_pos_int:
  assumes "0 < k" "k < 2 ^ 53"
  shows "round_pos (real_of_int k) = Fin (real_of_int k)"
proof -
  let ?r = "real_of_int k"
  let ?e = "ilog2 ?r"
  have pos: "0 < ?r" using assms(1) by simp
  then have b: "2 powi ?e \<le> ?r" "?r < 2 powi (?e + 1)"
    using ilog2_bounds by simp_all
  have "\<not> ?e + 1 \<le> 0"
  proof
    assume "?e + 1 \<le> 0"
    then have "(2::real) powi (?e + 1) \<le> 2 powi 0" by (rule two_powi_mono)
    with b(2) have "?r < 1" by simp
    with assms(1) show False by simp
  qed
  then have e0: "0 \<le> ?e" by simp
  have "\<not> 53 \<le> ?e"
  proof
    assume "53 \<le> ?e"
    then have "(2::real) powi 53 \<le> 2 powi ?e" by (rule two_powi_mono)
    with b(1) have "(2::real) ^ 53 \<le> ?r" by simp
    then have "(2::int) ^ 53 \<le> k" by (metis of_int_le_iff of_int_numeral of_int_power)
    with assms(2) show False by simp
  qed
  then have e52: "?e \<le> 52" by simp
  have "(2::real) powi ((?e - 52) + (52 - ?e)) = 2 powi (?e - 52) * 2 powi (52 - ?e)"
    by (rule power_int_add) simp
  moreover have "(?e - 52) + (52 - ?e) = 0" by simp
  ultimately have inv: "(2::real) powi (?e - 52) * 2 powi (52 - ?e) = 1"
    by (simp only: power_int_0_right)
  have nat: "(2::real) powi (52 - ?e) = real_of_int (2 ^ nat (52 - ?e))"
    using e52 by (simp add: power_int_def)
  have "?r / 2 powi (?e - 52) = ?r * 2 powi (52 - ?e)"
    using inv by (simp add: field_simps)
  also have "\<dots> = real_of_int (k * 2 ^ nat (52 - ?e))"
    by (simp add: nat)
  finally have q: "?r / 2 powi (?e - 52) = real_of_int (k * 2 ^ nat (52 - ?e))" .
  have n: "rhe (?r / 2 powi (?e - 52)) = k * 2 ^ nat (52 - ?e)"
    by (simp only: q rhe_of_int)
  have x: "?r = real_of_int (k * 2 ^ nat (52 - ?e)) * 2 powi (?e - 52)"
    using q by (simp add: field_simps)
  have "real_of_int k < 2 ^ 53" using assms(2) by (metis of_int_less_iff of_int_numeral of_int_power)
  also have "\<dots> \<le> (2::real) powi 1024" by simp
  finally have lt: "?r < 2 powi 1024" .
  from b e0 show ?thesis
    by (intro round_pos_eval[where e = "?e" and n = "k * 2 ^ nat (52 - ?e)"] n x lt) simp_all
qed

lemma rnd_int [simp]:
  assumes "\<bar>k\<bar> < 2 ^ 53"
  shows "rnd (real_of_int k) = Fin (real_of_int k)"
proof -
  consider "k = 0" | "0 < k" | "k < 0" by linarith
  then show ?thesis
  proof cases
    case 1
    then show ?thesis by (simp add: rnd_def)
  next
    case 2
    with assms show ?thesis by (simp add: rnd_def round_pos_int)
  next
    case 3
    with assms have "round_pos (real_of_int (- k)) = Fin (real_of_int (- k))"
      by (intro round_pos_int) simp_all
    with 3 show ?thesis by (simp add: rnd_def)
  qed
qed

lemma rnd_numeral [simp]:
  "numeral k < (2::int) ^ 53 \<Longrightarrow> rnd (numeral k) = Fin (numeral k)"
  "numeral k < (2::int) ^ 53 \<Longrightarrow> rnd (- numeral k) = Fin (- numeral k)"
  "rnd 1 = Fin 1" "rnd (- 1) = Fin (- 1)"
  using rnd_int[of "numeral k"] rnd_int[of "- numeral k"] rnd_int[of 1] rnd_int[of "- 1"]
  by simp_all

subsection \<open>Overflow\<close>

text \<open>A real of \<open>2 ^ 1024\<close> or more rounds to \<open>Infinity\<close>.\<close>

lemma rnd_overflow:
  assumes "2 powi 1024 \<le> r"
  shows "rnd r = PInf"
proof -
  have pos: "0 < r" using assms two_powi_pos[of 1024] by linarith
  let ?e = "ilog2 r"
  from pos have b: "2 powi ?e \<le> r" "r < 2 powi (?e + 1)" using ilog2_bounds by simp_all
  have "\<not> ?e + 1 \<le> 1024"
    using two_powi_mono[of "?e + 1" 1024] b(2) assms by linarith
  then have e: "1024 \<le> ?e" by simp
  then have m: "max ?e (- 1022) = ?e" by simp
  let ?q = "(2::real) powi (?e - 52)"
  have "(2::real) powi ((?e - 52) + 52) = ?q * 2 powi 52"
    by (rule power_int_add) simp
  then have pe: "2 powi ?e = ?q * 2 ^ 52" by simp
  with b(1) have "real_of_int (2 ^ 52) \<le> r / ?q" by (simp add: field_simps)
  then have "2 ^ 52 \<le> \<lfloor>r / ?q\<rfloor>" by (simp add: le_floor_iff)
  with rhe_ge_floor[of "r / ?q"] have "2 ^ 52 \<le> rhe (r / ?q)" by linarith
  then have "(2::real) ^ 52 \<le> real_of_int (rhe (r / ?q))"
    by (metis of_int_le_iff of_int_numeral of_int_power)
  then have "2 ^ 52 * ?q \<le> real_of_int (rhe (r / ?q)) * ?q"
    by (simp add: mult_right_mono)
  with pe have "2 powi ?e \<le> real_of_int (rhe (r / ?q)) * ?q" by (simp add: mult.commute)
  moreover have "(2::real) powi 1024 \<le> 2 powi ?e" using e by (rule two_powi_mono)
  ultimately have "2 powi 1024 \<le> real_of_int (rhe (r / ?q)) * ?q" by linarith
  then show ?thesis using pos by (simp add: rnd_def round_pos_def m Let_def)
qed

subsection \<open>The return from 100 to 110\<close>

text \<open>
  \<open>110 / 100\<close> rounds to the double next above 1.1; subtracting 1 is exact, and
  the product with 10000 rounds to \<open>1000 + 2 ^ - 40\<close>.
\<close>

lemma div_110_100:
  "js_div (Fin 110) (Fin 100) = Fin (2476979795053773 / 2251799813685248)"
proof -
  have "rnd (11 / 10) = Fin (2476979795053773 / 2251799813685248)"
    by (rule rnd_evalI[where e = 0 and n = 4953959590107546]) (simp_all add: rhe_def)
  then show ?thesis by (simp add: js_div_def)
qed

lemma sub_d1_1:
  "js_sub (Fin (2476979795053773 / 2251799813685248)) (Fin 1)
   = Fin (225179981368525 / 2251799813685248)"
proof -
  have "rnd (225179981368525 / 2251799813685248) = Fin (225179981368525 / 2251799813685248)"
    by (rule rnd_evalI[where e = "- 4" and n = 7205759403792800]) (simp_all add: rhe_def)
  then show ?thesis by (simp add: js_sub_def js_add_def)
qed

lemma mul_d2_10000:
  "js_mul (Fin (225179981368525 / 2251799813685248)) (Fin 10000)
   = Fin (1099511627776001 / 1099511627776)"
proof -
  have "rnd (140737488355328125 / 140737488355328) = Fin (1099511627776001 / 1099511627776)"
    by (rule rnd_evalI[where e = 9 and n = 8796093022208008]) (simp_all add: rhe_def)
  then show ?thesis by (simp add: js_mul_def)
qed

lemma bps_110_100:
  "js_mul (js_sub (js_div (Fin 110) (Fin 100)) (Fin 1)) (Fin 10000)
   = Fin (1099511627776001 / 1099511627776)"
  by (simp only: div_110_100 sub_d1_1 mul_d2_10000)

subsection \<open>The doubles\<close>

text \<open>
  Rounding a positive real that is not above \<open>max_double\<close> does not overflow, and a
  real of at least \<open>2 ^ - 1074\<close> does not round to zero.  The doubles are multiples
  of \<open>2 ^ - 1074\<close>, none of them exceeds \<open>max_double\<close>, and two different
  doubles differ by at least \<open>2 ^ - 1074\<close>.
\<close>

lemma rhe_le_floor1: "rhe q \<le> \<lfloor>q\<rfloor> + 1"
  by (simp add: rhe_def Let_def)

lemma rhe_le: 
  assumes "q \<le> of_int k"
  shows "rhe q \<le> k"
proof (cases "q = of_int k")
  case True
  then show ?thesis by simp
next
  case False
  with assms have "q < of_int k" by simp
  then have "\<lfloor>q\<rfloor> < k" by (simp add: floor_less_iff)
  with rhe_le_floor1[of q] show ?thesis by linarith
qed

lemma rhe_ge1: 
  assumes "1 \<le> q" 
  shows "1 \<le> rhe q"
proof -
  from assms have "1 \<le> \<lfloor>q\<rfloor>" by (simp add: le_floor_iff)
  with rhe_ge_floor[of q] show ?thesis by linarith
qed

lemma max_double_less: "max_double < 2 powi 1024"
  by (simp add: max_double_def)

lemma max_double_ge: "2 powi 1023 \<le> max_double"
  by (simp add: max_double_def)

lemma quantum_split: "(2::real) powi (e + 1) = 2 powi (e - 52) * 2 ^ 53"
proof -
  have "(2::real) powi ((e - 52) + 53) = 2 powi (e - 52) * 2 powi 53"
    by (rule power_int_add) simp
  moreover have "(e - 52) + 53 = e + 1" by simp
  moreover have "(2::real) powi 53 = 2 ^ 53" by simp
  ultimately show ?thesis by (simp only:)
qed

lemma quantum_le:
  assumes "0 < r"
  shows "2 powi (max (ilog2 r) (- 1022) - 52) \<le> max r (2 powi (- 1074))"
proof (cases "- 1022 \<le> ilog2 r")
  case True
  then have m: "max (ilog2 r) (- 1022) = ilog2 r" by simp
  have "(2::real) powi (ilog2 r - 52) \<le> 2 powi (ilog2 r)" by (rule two_powi_mono) simp
  also have "\<dots> \<le> r" using ilog2_bounds[OF assms] by simp
  finally show ?thesis by (simp add: m)
next
  case False
  then have m: "max (ilog2 r) (- 1022) = - 1022" by simp
  show ?thesis by (simp add: m)
qed

lemma round_pos_grid_pos:
  assumes "2 powi (- 1074) \<le> r"
  shows "(\<exists>x. 0 < x \<and> round_pos r = Fin x) \<or> round_pos r = PInf"
proof -
  have pos: "0 < r" using assms two_powi_pos[of "- 1074"] by linarith
  let ?q = "(2::real) powi (max (ilog2 r) (- 1022) - 52)"
  from quantum_le[OF pos] assms have "?q \<le> r" by simp
  then have "1 \<le> r / ?q" by (simp add: field_simps)
  then have "1 \<le> rhe (r / ?q)" by (rule rhe_ge1)
  then have "0 < real_of_int (rhe (r / ?q))" by simp
  then have "0 < real_of_int (rhe (r / ?q)) * ?q" by simp
  then show ?thesis by (simp add: round_pos_def Let_def)
qed

lemma round_pos_bounded:
  assumes "0 < r" "r \<le> max_double"
  shows "\<exists>x. round_pos r = Fin x \<and> x \<le> max_double"
proof -
  let ?e = "max (ilog2 r) (- 1022)"
  let ?q = "(2::real) powi (?e - 52)"
  let ?x = "real_of_int (rhe (r / ?q)) * ?q"
  from assms(1) have b: "2 powi (ilog2 r) \<le> r" "r < 2 powi (ilog2 r + 1)"
    using ilog2_bounds by simp_all
  have "\<not> 1024 \<le> ilog2 r"
    using two_powi_mono[of 1024 "ilog2 r"] b(1) assms(2) max_double_less by linarith
  then have e: "?e \<le> 1023" by simp
  have "(2::real) powi (ilog2 r + 1) \<le> 2 powi (?e + 1)" by (rule two_powi_mono) simp
  with b(2) have "r < 2 powi (?e + 1)" by linarith
  then have "r < ?q * 2 ^ 53" by (simp only: quantum_split)
  then have q53: "r / ?q \<le> real_of_int (2 ^ 53)" by (simp add: field_simps)
  have x: "?x \<le> max_double"
  proof (cases "?e \<le> 1022")
    case True
    from q53 have "rhe (r / ?q) \<le> 2 ^ 53" by (rule rhe_le)
    then have "real_of_int (rhe (r / ?q)) \<le> 2 ^ 53"
      by (metis of_int_le_iff of_int_numeral of_int_power)
    then have "?x \<le> 2 ^ 53 * ?q" by (simp add: mult_right_mono)
    also have "\<dots> = 2 powi (?e + 1)" by (simp only: quantum_split mult.commute)
    also have "\<dots> \<le> 2 powi 1023" using True by (intro two_powi_mono) simp
    also have "\<dots> \<le> max_double" by (rule max_double_ge)
    finally show ?thesis .
  next
    case False
    with e have e': "?e = 1023" by linarith
    then have q: "?q = 2 powi 971" by simp
    have "r / ?q \<le> max_double / ?q" using assms(2) by (simp add: divide_right_mono)
    also have "max_double / ?q = real_of_int (2 ^ 53 - 1)"
      unfolding q by (simp add: max_double_def)
    finally have "rhe (r / ?q) \<le> 2 ^ 53 - 1" by (rule rhe_le)
    then have "real_of_int (rhe (r / ?q)) \<le> real_of_int (2 ^ 53 - 1)"
      by (simp only: of_int_le_iff)
    then have "?x \<le> real_of_int (2 ^ 53 - 1) * ?q" by (simp add: mult_right_mono)
    also have "\<dots> = max_double" unfolding q by (simp add: max_double_def)
    finally show ?thesis .
  qed
  with max_double_less have "\<not> 2 powi 1024 \<le> ?x" by linarith
  then have "round_pos r = Fin ?x" by (simp add: round_pos_def Let_def)
  with x show ?thesis by blast
qed

lemma round_pos_fixD:
  assumes "round_pos x = Fin x"
  shows "x = real_of_int (rhe (x / 2 powi (max (ilog2 x) (- 1022) - 52)))
               * 2 powi (max (ilog2 x) (- 1022) - 52) \<and> x < 2 powi 1024"
  using assms by (simp add: round_pos_def Let_def split: if_splits)

lemma round_pos_fix_grid:
  assumes "round_pos x = Fin x"
  shows "\<exists>m::int. x = of_int m * 2 powi (- 1074)"
proof -
  let ?e = "max (ilog2 x) (- 1022)"
  let ?n = "rhe (x / 2 powi (?e - 52))"
  from round_pos_fixD[OF assms] have x: "x = real_of_int ?n * 2 powi (?e - 52)" by blast
  have "(2::real) powi ((?e + 1022) + (- 1074)) = 2 powi (?e + 1022) * 2 powi (- 1074)"
    by (rule power_int_add) simp
  moreover have "(?e + 1022) + (- 1074) = ?e - 52" by simp
  ultimately have s: "(2::real) powi (?e - 52) = 2 powi (?e + 1022) * 2 powi (- 1074)"
    by (simp only:)
  have "0 \<le> ?e + 1022" by simp
  then have "(2::real) powi (?e + 1022) = 2 ^ nat (?e + 1022)"
    by (simp add: power_int_def)
  also have "\<dots> = real_of_int (2 ^ nat (?e + 1022))" by simp
  finally have p: "(2::real) powi (?e + 1022) = real_of_int (2 ^ nat (?e + 1022))" .
  have "x = real_of_int (?n * 2 ^ nat (?e + 1022)) * 2 powi (- 1074)"
    by (subst x, subst s, subst p) (simp only: of_int_mult mult.assoc)
  then show ?thesis ..
qed

lemma rnd_fix_pos: "rnd x = Fin x \<Longrightarrow> 0 < x \<Longrightarrow> round_pos x = Fin x"
  by (simp add: rnd_def)

lemma rnd_fix_neg:
  assumes "rnd x = Fin x" "x < 0"
  shows "round_pos (- x) = Fin (- x)"
proof -
  from assms have j: "js_neg (round_pos (- x)) = Fin x" by (simp add: rnd_def)
  from assms(2) have "0 < - x" by simp
  from round_pos_class[OF this] j show ?thesis
    by (auto split: if_splits)
qed

lemma double_grid:
  assumes "rnd x = Fin x"
  shows "\<exists>m::int. x = of_int m * 2 powi (- 1074)"
proof -
  consider "x = 0" | "0 < x" | "x < 0" by linarith
  then show ?thesis
  proof cases
    case 1
    then have "x = of_int 0 * 2 powi (- 1074)" by simp
    then show ?thesis ..
  next
    case 2
    with assms have "round_pos x = Fin x" by (rule_tac rnd_fix_pos)
    then show ?thesis by (rule round_pos_fix_grid)
  next
    case 3
    with assms have "round_pos (- x) = Fin (- x)" by (rule_tac rnd_fix_neg)
    then obtain m :: int where "- x = of_int m * 2 powi (- 1074)"
      using round_pos_fix_grid by blast
    then have "x = of_int (- m) * 2 powi (- 1074)" by simp
    then show ?thesis ..
  qed
qed

lemma double_le_max:
  assumes "rnd x = Fin x" "0 < x"
  shows "x \<le> max_double"
proof -
  let ?e = "max (ilog2 x) (- 1022)"
  let ?q = "(2::real) powi (?e - 52)"
  let ?n = "rhe (x / ?q)"
  from assms have "round_pos x = Fin x" by (rule rnd_fix_pos)
  from round_pos_fixD[OF this] have x: "x = real_of_int ?n * ?q" and lt: "x < 2 powi 1024"
    by blast+
  from assms(2) have b: "2 powi (ilog2 x) \<le> x" "x < 2 powi (ilog2 x + 1)"
    using ilog2_bounds by simp_all
  have "\<not> 1024 \<le> ilog2 x"
    using two_powi_mono[of 1024 "ilog2 x"] b(1) lt by linarith
  then have e: "?e \<le> 1023" by simp
  show ?thesis
  proof (cases "?e \<le> 1022")
    case True
    have "(2::real) powi (ilog2 x + 1) \<le> 2 powi 1023"
      using True by (intro two_powi_mono) simp
    with b(2) max_double_ge show ?thesis by linarith
  next
    case False
    with e have "?e = 1023" by linarith
    then have q: "?q = 2 powi 971" by simp
    from x lt have "real_of_int ?n * 2 powi 971 < 2 powi 1024" by (simp only: q)
    then have "real_of_int ?n < real_of_int (2 ^ 53)" by simp
    then have "?n < 2 ^ 53" by (simp only: of_int_less_iff)
    then have "?n \<le> 2 ^ 53 - 1" by simp
    then have "real_of_int ?n \<le> real_of_int (2 ^ 53 - 1)" by (simp only: of_int_le_iff)
    then have "real_of_int ?n * ?q \<le> real_of_int (2 ^ 53 - 1) * ?q"
      by (simp add: mult_right_mono)
    also have "\<dots> = max_double" unfolding q by (simp add: max_double_def)
    finally show ?thesis using x by simp
  qed
qed

lemma double_diff_ge:
  assumes "rnd a = Fin a" "rnd b = Fin b" "a < b"
  shows "2 powi (- 1074) \<le> b - a"
proof -
  from assms(1) obtain ma :: int where a: "a = of_int ma * 2 powi (- 1074)"
    using double_grid by blast
  from assms(2) obtain mb :: int where b: "b = of_int mb * 2 powi (- 1074)"
    using double_grid by blast
  have d: "b - a = real_of_int (mb - ma) * 2 powi (- 1074)"
    by (simp add: a b algebra_simps)
  have "0 < real_of_int (mb - ma) * (2::real) powi (- 1074)" using assms(3) d by simp
  then have "0 < real_of_int (mb - ma)" by (simp add: zero_less_mult_iff)
  then have "1 \<le> mb - ma" by simp
  then have "(1::real) \<le> real_of_int (mb - ma)" by (simp only: of_int_1_le_iff)
  then have "1 * (2::real) powi (- 1074) \<le> real_of_int (mb - ma) * 2 powi (- 1074)"
    by (intro mult_right_mono) simp_all
  with d show ?thesis by simp
qed

subsection \<open>The spread of a crossed book\<close>

text \<open>
  Rounding moves a positive real by at most half a quantum: the result is at most twice
  the real, at least half of it when the real is not below the smallest positive double,
  and a positive result is not below the smallest positive double.
\<close>

lemma rhe_le_half: "real_of_int (rhe q) \<le> q + 1 / 2"
  unfolding rhe_def Let_def by (auto; linarith)

lemma rhe_ge_half: "q - 1 / 2 \<le> real_of_int (rhe q)"
  unfolding rhe_def Let_def by (auto; linarith)

lemma rhe_ge_half_of: "1 \<le> q \<Longrightarrow> q / 2 \<le> real_of_int (rhe q)"
  using rhe_ge_half[of q] by linarith

lemma rhe_le_twice:
  assumes "0 \<le> q"
  shows "real_of_int (rhe q) \<le> 2 * q"
proof (cases "q < 1 / 2")
  case True
  with assms have "\<lfloor>q\<rfloor> = 0" by (simp add: floor_eq_iff)
  with True have "rhe q = 0" by (simp add: rhe_def Let_def)
  with assms show ?thesis by simp
next
  case False
  with rhe_le_half[of q] show ?thesis by linarith
qed

lemma round_pos_le_twice:
  assumes "0 < r" "round_pos r = Fin x"
  shows "x \<le> 2 * r"
proof -
  let ?q = "(2::real) powi (max (ilog2 r) (- 1022) - 52)"
  from assms(2) have x: "x = real_of_int (rhe (r / ?q)) * ?q"
    by (simp add: round_pos_def Let_def split: if_splits)
  have "0 \<le> r / ?q" using assms(1) by simp
  then have "real_of_int (rhe (r / ?q)) \<le> 2 * (r / ?q)" by (rule rhe_le_twice)
  then have "real_of_int (rhe (r / ?q)) * ?q \<le> 2 * (r / ?q) * ?q"
    by (intro mult_right_mono) simp_all
  with x show ?thesis by simp
qed

lemma round_pos_ge_half:
  assumes "2 powi (- 1074) \<le> r" "round_pos r = Fin x"
  shows "r / 2 \<le> x"
proof -
  have pos: "0 < r" using assms(1) two_powi_pos[of "- 1074"] by linarith
  let ?q = "(2::real) powi (max (ilog2 r) (- 1022) - 52)"
  from assms(2) have x: "x = real_of_int (rhe (r / ?q)) * ?q"
    by (simp add: round_pos_def Let_def split: if_splits)
  from quantum_le[OF pos] assms(1) have "?q \<le> r" by simp
  then have "1 \<le> r / ?q" by (simp add: field_simps)
  then have "r / ?q / 2 \<le> real_of_int (rhe (r / ?q))" by (rule rhe_ge_half_of)
  then have "r / ?q / 2 * ?q \<le> real_of_int (rhe (r / ?q)) * ?q"
    by (intro mult_right_mono) simp_all
  with x show ?thesis by simp
qed

lemma round_pos_result_ge:
  assumes "round_pos r = Fin x" "0 < x"
  shows "2 powi (- 1074) \<le> x"
proof -
  let ?e = "max (ilog2 r) (- 1022)"
  let ?q = "(2::real) powi (?e - 52)"
  from assms(1) have x: "x = real_of_int (rhe (r / ?q)) * ?q"
    by (simp add: round_pos_def Let_def split: if_splits)
  with assms(2) have "0 < real_of_int (rhe (r / ?q)) * ?q" by simp
  then have "0 < real_of_int (rhe (r / ?q))" by (rule zero_less_mult_pos2) simp
  then have "1 \<le> rhe (r / ?q)" by simp
  then have "(1::real) \<le> real_of_int (rhe (r / ?q))" by (simp only: of_int_1_le_iff)
  then have "1 * ?q \<le> real_of_int (rhe (r / ?q)) * ?q"
    by (intro mult_right_mono) simp_all
  then have le: "?q \<le> real_of_int (rhe (r / ?q)) * ?q" by (simp only: mult_1)
  have "(2::real) powi (- 1074) \<le> ?q" by (rule two_powi_mono) simp
  also note le
  also have "real_of_int (rhe (r / ?q)) * ?q = x" by (simp only: x)
  finally show ?thesis .
qed

lemma ilog2_mono:
  assumes "0 < a" "a \<le> b"
  shows "ilog2 a \<le> ilog2 b"
proof (rule ccontr)
  assume "\<not> ilog2 a \<le> ilog2 b"
  then have "ilog2 b + 1 \<le> ilog2 a" by simp
  then have "(2::real) powi (ilog2 b + 1) \<le> 2 powi (ilog2 a)" by (rule two_powi_mono)
  moreover have "2 powi (ilog2 a) \<le> a" using ilog2_bounds[OF assms(1)] by simp
  moreover have "b < 2 powi (ilog2 b + 1)" using ilog2_bounds[of b] assms by simp
  ultimately show False using assms(2) by linarith
qed

text \<open>Two positive doubles differ by at least the quantum of the smaller one.\<close>

lemma double_gap:
  assumes "rnd a = Fin a" "rnd b = Fin b" "0 < a" "a < b"
  shows "2 powi (max (ilog2 a) (- 1022) - 52) \<le> b - a"
proof -
  let ?ea = "max (ilog2 a) (- 1022)"
  let ?eb = "max (ilog2 b) (- 1022)"
  let ?qa = "(2::real) powi (?ea - 52)"
  let ?qb = "(2::real) powi (?eb - 52)"
  let ?na = "rhe (a / ?qa)"
  let ?nb = "rhe (b / ?qb)"
  from assms have ra: "round_pos a = Fin a" and rb: "round_pos b = Fin b"
    by (simp_all add: rnd_fix_pos)
  from round_pos_fixD[OF ra] have a: "a = real_of_int ?na * ?qa" by blast
  from round_pos_fixD[OF rb] have b: "b = real_of_int ?nb * ?qb" by blast
  have "ilog2 a \<le> ilog2 b" using assms(3,4) by (intro ilog2_mono) simp_all
  then have le: "?ea \<le> ?eb" by simp
  have "(2::real) powi ((?eb - ?ea) + (?ea - 52)) = 2 powi (?eb - ?ea) * 2 powi (?ea - 52)"
    by (rule power_int_add) simp
  moreover have "(?eb - ?ea) + (?ea - 52) = ?eb - 52" by simp
  ultimately have s: "?qb = 2 powi (?eb - ?ea) * ?qa" by (simp only:)
  from le have "0 \<le> ?eb - ?ea" by simp
  then have "(2::real) powi (?eb - ?ea) = 2 ^ nat (?eb - ?ea)"
    by (simp add: power_int_def)
  also have "\<dots> = real_of_int (2 ^ nat (?eb - ?ea))" by simp
  finally have p: "(2::real) powi (?eb - ?ea) = real_of_int (2 ^ nat (?eb - ?ea))" .
  have "b = real_of_int (?nb * 2 ^ nat (?eb - ?ea)) * ?qa"
    by (subst b, subst s, subst p) (simp only: of_int_mult mult.assoc)
  with a have d: "b - a = real_of_int (?nb * 2 ^ nat (?eb - ?ea) - ?na) * ?qa"
    by (simp add: algebra_simps)
  have "0 < real_of_int (?nb * 2 ^ nat (?eb - ?ea) - ?na) * ?qa" using assms(4) d by simp
  then have "0 < real_of_int (?nb * 2 ^ nat (?eb - ?ea) - ?na)"
    by (rule zero_less_mult_pos2) simp
  then have "0 < ?nb * 2 ^ nat (?eb - ?ea) - ?na" by (simp only: of_int_0_less_iff)
  then have "1 \<le> ?nb * 2 ^ nat (?eb - ?ea) - ?na" by linarith
  then have "(1::real) \<le> real_of_int (?nb * 2 ^ nat (?eb - ?ea) - ?na)"
    by (simp only: of_int_1_le_iff)
  then have "1 * ?qa \<le> real_of_int (?nb * 2 ^ nat (?eb - ?ea) - ?na) * ?qa"
    by (intro mult_right_mono) simp_all
  with d show ?thesis by simp
qed

lemma quantum_rel:
  assumes "0 < a"
  shows "a * 2 powi (- 53) \<le> 2 powi (max (ilog2 a) (- 1022) - 52)"
proof -
  let ?e = "max (ilog2 a) (- 1022)"
  have "a < 2 powi (ilog2 a + 1)" using ilog2_bounds[OF assms] by simp
  also have "\<dots> \<le> 2 powi (?e + 1)" by (rule two_powi_mono) simp
  finally have "a * 2 powi (- 53) \<le> 2 powi (?e + 1) * 2 powi (- 53)"
    by (intro mult_right_mono) simp_all
  moreover have "(2::real) powi ((?e + 1) + (- 53)) = 2 powi (?e + 1) * 2 powi (- 53)"
    by (rule power_int_add) simp
  moreover have "(?e + 1) + (- 53) = ?e - 52" by simp
  ultimately show ?thesis by (simp only:)
qed

text \<open>
  The relative distance of two positive doubles \<open>a < b\<close> is at least \<open>2 ^ - 54\<close>.
\<close>

lemma double_rel_gap:
  assumes "rnd a = Fin a" "rnd b = Fin b" "0 < a" "a < b"
  shows "b * 2 powi (- 54) \<le> b - a"
proof (cases "2 * a \<le> b")
  case True
  have "(2::real) powi (- 54) \<le> 2 powi (- 1)" by (rule two_powi_mono) simp
  then have "b * 2 powi (- 54) \<le> b * 2 powi (- 1)"
    using assms(3,4) by (intro mult_left_mono) simp_all
  also have "\<dots> = b / 2" by simp
  also have "\<dots> \<le> b - a" using True by simp
  finally show ?thesis .
next
  case False
  then have "b < 2 * a" by simp
  then have "b * 2 powi (- 54) \<le> 2 * a * 2 powi (- 54)"
    by (intro mult_right_mono) simp_all
  also have "\<dots> = a * (2 * 2 powi (- 54))" by simp
  also have "2 * (2::real) powi (- 54) = 2 powi (- 53)"
    using two_powi_Suc[of "- 54"] by simp
  also have "a * 2 powi (- 53) \<le> 2 powi (max (ilog2 a) (- 1022) - 52)"
    using assms(3) by (rule quantum_rel)
  also have "\<dots> \<le> b - a" using assms by (rule double_gap)
  finally show ?thesis .
qed

lemma double_sub_value:
  assumes "is_double (Fin a)" "is_double (Fin b)" "0 < a" "a < b"
  shows "\<exists>x. 0 < x \<and> (b - a) / 2 \<le> x \<and> js_sub (Fin a) (Fin b) = Fin (- x)"
proof -
  from assms have da: "rnd a = Fin a" and db: "rnd b = Fin b" by simp_all
  from da db assms(4) have g: "2 powi (- 1074) \<le> b - a" by (rule double_diff_ge)
  from db have "b \<le> max_double" using assms(3,4) by (intro double_le_max) simp_all
  with assms(3) have le: "b - a \<le> max_double" by linarith
  from assms(4) have pos: "0 < b - a" by simp
  from round_pos_bounded[OF pos le] obtain x where x: "round_pos (b - a) = Fin x" by blast
  with round_pos_grid_pos[OF g] have x0: "0 < x" by auto
  from round_pos_ge_half[OF g x] have half: "(b - a) / 2 \<le> x" .
  have "js_sub (Fin a) (Fin b) = rnd (a - b)"
    using assms(3,4) by (simp add: js_sub_def js_add_def)
  also have "\<dots> = js_neg (round_pos (b - a))" using assms(4) by (simp add: rnd_def)
  also have "\<dots> = Fin (- x)" using x x0 by simp
  finally show ?thesis using x0 half by blast
qed

lemma rnd_negative_strict:
  assumes "2 powi (- 1074) \<le> r"
  shows "js_lt (rnd (- r)) (Fin 0)"
proof -
  have pos: "0 < r" using assms two_powi_pos[of "- 1074"] by linarith
  from round_pos_grid_pos[OF assms] pos show ?thesis
    by (auto simp: rnd_def)
qed

lemma rnd_negative_cases:
  assumes "2 powi (- 1074) \<le> r"
  shows "(\<exists>y. 2 powi (- 1074) \<le> y \<and> rnd (- r) = Fin (- y)) \<or> rnd (- r) = NInf"
proof -
  have pos: "0 < r" using assms two_powi_pos[of "- 1074"] by linarith
  from round_pos_grid_pos[OF assms] show ?thesis
  proof
    assume "\<exists>x. 0 < x \<and> round_pos r = Fin x"
    then obtain x where x: "0 < x" "round_pos r = Fin x" by blast
    from round_pos_result_ge[OF x(2) x(1)] have "2 powi (- 1074) \<le> x" .
    moreover have "rnd (- r) = Fin (- x)" using pos x by (simp add: rnd_def)
    ultimately show ?thesis by blast
  next
    assume "round_pos r = PInf"
    then show ?thesis using pos by (simp add: rnd_def)
  qed
qed

text \<open>
  A crossed book whose best prices are the finite doubles \<open>b > a > 0\<close>: when
  \<open>b + a\<close> overflows the mid price is infinite and the spread is the negative zero;
  otherwise the mid price is finite and the spread is below zero.
\<close>

lemma crossed_spread_sharp:
  assumes "is_double (Fin a)" "is_double (Fin b)" "0 < a" "a < b"
  shows "(js_add (Fin b) (Fin a) = PInf \<longrightarrow>
            js_div (js_add (Fin b) (Fin a)) (Fin 2) = PInf \<and>
            js_mul (js_div (js_sub (Fin a) (Fin b))
                      (js_div (js_add (Fin b) (Fin a)) (Fin 2))) (Fin 10000) = NZero) \<and>
         (js_add (Fin b) (Fin a) \<noteq> PInf \<longrightarrow>
            js_div (js_add (Fin b) (Fin a)) (Fin 2) \<noteq> PInf \<and>
            js_lt (js_mul (js_div (js_sub (Fin a) (Fin b))
                      (js_div (js_add (Fin b) (Fin a)) (Fin 2))) (Fin 10000)) (Fin 0))"
proof -
  from assms have da: "rnd a = Fin a" and db: "rnd b = Fin b" by simp_all
  from double_sub_value[OF assms] obtain x where
    x: "0 < x" "(b - a) / 2 \<le> x" "js_sub (Fin a) (Fin b) = Fin (- x)" by blast
  have sum: "js_add (Fin b) (Fin a) = round_pos (b + a)"
    using assms(3,4) by (simp add: js_add_def rnd_def)
  have pos: "0 < b + a" using assms(3,4) by simp
  show ?thesis
  proof (cases "round_pos (b + a) = PInf")
    case True
    then show ?thesis
      unfolding x(3) sum using x(1)
      by (simp add: js_div_def js_mul_def signed_inf_def signed_zero_def)
  next
    case False
    with round_pos_class[OF pos] obtain s where s: "0 \<le> s" "round_pos (b + a) = Fin s"
      by blast
    have "2 * (b + a) \<le> 4 * b" using assms(4) by simp
    with round_pos_le_twice[OF pos s(2)] have s4: "s \<le> 4 * b" by (rule order_trans)
    from s(2) have slt: "s < 2 powi 1024"
      by (simp add: round_pos_def Let_def split: if_splits)
    have q: "js_div (Fin s) (Fin 2) \<noteq> PInf \<and>
             ((\<exists>y. 2 powi (- 1074) \<le> y \<and>
                 js_div (Fin (- x)) (js_div (Fin s) (Fin 2)) = Fin (- y)) \<or>
              js_div (Fin (- x)) (js_div (Fin s) (Fin 2)) = NInf)"
    proof (cases "s = 0")
      case True
      with x(1) show ?thesis by (simp add: js_div_def signed_inf_def signed_zero_def)
    next
      case False
      with s(1) have s0: "0 < s" by simp
      then have h0: "0 < s / 2" by simp
      have "s / 2 \<le> 2 powi 1023"
      proof -
        have "(2::real) powi (1023 + 1) = 2 * 2 powi 1023" by (rule two_powi_Suc)
        with slt show ?thesis by simp
      qed
      with max_double_ge have "s / 2 \<le> max_double" by linarith
      from round_pos_bounded[OF h0 this] obtain m where m: "round_pos (s / 2) = Fin m" by blast
      from round_pos_class[OF h0] m have m0: "0 \<le> m" by auto
      from round_pos_le_twice[OF h0 m] have ms: "m \<le> s" by simp
      have mid: "js_div (Fin s) (Fin 2) = Fin m"
        using s0 m by (simp add: js_div_def rnd_def)
      show ?thesis
      proof (cases "m = 0")
        case True
        with x(1) show ?thesis
          unfolding mid by (simp add: js_div_def signed_inf_def)
      next
        case False
        with m0 have mpos: "0 < m" by simp
        have "b * 2 powi (- 54) \<le> b - a" using da db assms(3,4) by (rule double_rel_gap)
        then have "b * 2 powi (- 54) / 2 \<le> (b - a) / 2" by (rule divide_right_mono) simp
        then have xb: "b * 2 powi (- 54) / 2 \<le> x" using x(2) by (rule order_trans)
        from ms s4 have m4: "m \<le> 4 * b" by linarith
        have "m * 2 powi (- 57) \<le> 4 * b * 2 powi (- 57)"
          using m4 by (intro mult_right_mono) simp_all
        also have "\<dots> = b * 2 powi (- 54) / 2" by simp
        also note xb
        finally have "m * 2 powi (- 57) \<le> x" .
        then have "2 powi (- 57) \<le> x / m" using mpos by (simp add: field_simps)
        moreover have "(2::real) powi (- 1074) \<le> 2 powi (- 57)" by (rule two_powi_mono) simp
        ultimately have g: "2 powi (- 1074) \<le> x / m" by (rule_tac order_trans)
        have quot: "js_div (Fin (- x)) (Fin m) = rnd (- (x / m))"
          using x(1) mpos by (simp add: js_div_def)
        from rnd_negative_cases[OF g] show ?thesis
          unfolding mid quot by simp
      qed
    qed
    have "js_lt (js_mul (js_div (Fin (- x)) (js_div (Fin s) (Fin 2))) (Fin 10000)) (Fin 0)"
    proof -
      from q consider y where "2 powi (- 1074) \<le> y"
          "js_div (Fin (- x)) (js_div (Fin s) (Fin 2)) = Fin (- y)"
        | "js_div (Fin (- x)) (js_div (Fin s) (Fin 2)) = NInf" by blast
      then show ?thesis
      proof cases
        case 1
        have ypos: "0 < y" using 1(1) two_powi_pos[of "- 1074"] by linarith
        then have "y \<le> y * 10000" by simp
        with 1(1) have g: "2 powi (- 1074) \<le> y * 10000" by linarith
        have "js_mul (Fin (- y)) (Fin 10000) = rnd (- (y * 10000))"
          using ypos by (simp add: js_mul_def)
        with rnd_negative_strict[OF g] show ?thesis unfolding 1(2) by simp
      next
        case 2
        then show ?thesis by (simp add: js_mul_def signed_inf_def)
      qed
    qed
    with False q show ?thesis unfolding x(3) sum s(2) by simp
  qed
qed

section \<open>Signal engine: the gate pipeline\<close>

lemma getLatestPolySnapshot_last:
  "getLatestPolySnapshot e =
     (if polySnapshots e = [] then None else Some (last (polySnapshots e)))"
  by (simp add: getLatestPolySnapshot_def last_conv_nth)

lemma calculatePolyMovement_spec:
  "calculatePolyMovement e = spec_polyMoveBps (polySnapshots e)"
proof (cases "length (polySnapshots e) < 2")
  case True
  then show ?thesis by (simp add: calculatePolyMovement_def spec_polyMoveBps_def)
next
  case False
  then have ne: "polySnapshots e \<noteq> []" by auto
  with False show ?thesis
    by (simp add: calculatePolyMovement_def spec_polyMoveBps_def Let_def hd_conv_nth last_conv_nth)
qed

text \<open>
  Claim C1.  Every call of \<open>processSpotMove\<close> makes exactly one logger call, a discard
  or a signal.  It is the discard of the first gate that fails in the order
  \<open>no_poly_snapshot\<close>, \<open>wide_spread\<close>, \<open>low_depth\<close>, \<open>cooldown\<close>,
  \<open>insufficient_edge\<close>, and a signal when no gate fails.  With an empty history the
  reason is \<open>no_poly_snapshot\<close>, whatever the other gates would say.
\<close>

theorem processSpotMove_gate_order:
  "\<exists>ev. snd (processSpotMove env now e sy pr moveBps dir) = [ev] \<and>
     (case List.find (gate_fails env now e moveBps) gate_order of
        Some r \<Rightarrow> (\<exists>d. ev = Discard r d)
      | None \<Rightarrow> (\<exists>sg. ev = Signal sg)) \<and>
     (polySnapshots e = [] \<longrightarrow> (\<exists>d. ev = Discard no_poly_snapshot d))"
  by (simp add: processSpotMove_def getLatestPolySnapshot_last calculatePolyMovement_spec
      gate_order_def spec_edgeBps_def Let_def)

text \<open>
  On a new engine at time 0 the cooldown gate fails as well; the reason is still
  \<open>no_poly_snapshot\<close>.
\<close>

theorem processSpotMove_gate_order_witness:
  "polySnapshots engine_init = [] \<and> gate_fails default_env 0 engine_init (Fin 60) cooldown \<and>
   (\<exists>d. snd (processSpotMove default_env 0 engine_init ''BTCUSDT'' (Fin 100) (Fin 60) Up)
          = [Discard no_poly_snapshot d])"
  using processSpotMove_gate_order [of default_env 0 engine_init "''BTCUSDT''" "Fin 100" "Fin 60" Up]
  by (auto simp: engine_init_def default_env_def)

section \<open>Signal engine: the example history\<close>

text \<open>
  The history of \<open>ex_engine\<close> has the mid prices 100 and 110.  In double arithmetic
  \<open>110 / 100\<close> is the double next above 1.1, and the movement comes out as
  \<open>1000 + 2 ^ - 40\<close>, which prints as 1000.0000000000009.  A move of 1300 bps then has
  an edge of \<open>300 - 2 ^ - 40\<close>, and a move of 1020 bps an edge of \<open>20 - 2 ^ - 40\<close>
  (19.99999999999909), below the default minimum of 20.
\<close>

lemma calculatePolyMovement_lastSignalTime [simp]:
  "calculatePolyMovement (e\<lparr>lastSignalTime := t\<rparr>) = calculatePolyMovement e"
  by (simp add: calculatePolyMovement_def)

lemma getLatestPolySnapshot_lastSignalTime [simp]:
  "getLatestPolySnapshot (e\<lparr>lastSignalTime := t\<rparr>) = getLatestPolySnapshot e"
  by (simp add: getLatestPolySnapshot_def)

lemma ex_engine_latest:
  "getLatestPolySnapshot ex_engine = Some (snap 110 40 100 95000)"
  by (simp add: getLatestPolySnapshot_def ex_engine_def)

lemma ex_engine_lastSignalTime: "lastSignalTime ex_engine = 0"
  by (simp add: ex_engine_def)

lemma ex_engine_movement:
  "calculatePolyMovement ex_engine = Fin (1099511627776001 / 1099511627776)"
  by (simp add: calculatePolyMovement_def ex_engine_def snap_def bps_110_100)

lemma edge_1300:
  "js_sub (Fin 1300) (Fin (1099511627776001 / 1099511627776))
   = Fin (329853488332799 / 1099511627776)"
proof -
  have "rnd (329853488332799 / 1099511627776) = Fin (329853488332799 / 1099511627776)"
    by (rule rnd_evalI[where e = 8 and n = 5277655813324784]) (simp_all add: rhe_def)
  then show ?thesis by (simp add: js_sub_def js_add_def)
qed

lemma edge_1020:
  "js_sub (Fin 1020) (Fin (1099511627776001 / 1099511627776))
   = Fin (21990232555519 / 1099511627776)"
proof -
  have "rnd (21990232555519 / 1099511627776) = Fin (21990232555519 / 1099511627776)"
    by (rule rnd_evalI[where e = 4 and n = 5629499534212864]) (simp_all add: rhe_def)
  then show ?thesis by (simp add: js_sub_def js_add_def)
qed

lemma ex_engine_move_1300:
  "processSpotMove default_env now (ex_engine\<lparr>lastSignalTime := t\<rparr>)
     ''BTCUSDT'' (Fin 100) (Fin 1300) Up
   = (if now - t < 15000 then
        (ex_engine\<lparr>lastSignalTime := t\<rparr>,
         [Discard cooldown
            [(''spotSymbol'', VStr ''BTCUSDT''), (''spotPrice'', VNum (Fin 100)),
             (''spotMoveBps'', VNum (Fin 1300)), (''spotDirection'', VDir Up),
             (''timeSinceLastMs'', VInt (now - t)), (''cooldownMs'', VInt 15000)]])
      else
        (ex_engine\<lparr>lastSignalTime := now\<rparr>,
         [Signal \<lparr> sigTimestamp = now, spotSymbol = ''BTCUSDT'', spotPrice = Fin 100,
                    spotMoveBps = Fin 1300, spotDirection = Up, polyTokenId = ''tok'',
                    polyMidPrice = Fin 110, polySpreadBps = Fin 40, polyDepth = Fin 100,
                    edgeBps = Fin (329853488332799 / 1099511627776),
                    reason = ''latency_opportunity'' \<rparr>]))"
  by (simp add: processSpotMove_def ex_engine_latest ex_engine_movement edge_1300
      snap_def default_env_def spot_fields_def js_gt_def Let_def)

lemma ex_engine_move_1020:
  "processSpotMove default_env 100000 ex_engine ''BTCUSDT'' (Fin 100) (Fin 1020) Up
   = (ex_engine,
      [Discard insufficient_edge
         [(''spotSymbol'', VStr ''BTCUSDT''), (''spotPrice'', VNum (Fin 100)),
          (''spotMoveBps'', VNum (Fin 1020)), (''spotDirection'', VDir Up),
          (''polyMoveBps'', VNum (Fin (1099511627776001 / 1099511627776))),
          (''edgeBps'', VNum (Fin (21990232555519 / 1099511627776))),
          (''minRequired'', VNum (Fin 20))]])"
  by (simp add: processSpotMove_def ex_engine_latest ex_engine_movement edge_1020
      ex_engine_lastSignalTime snap_def default_env_def spot_fields_def js_gt_def Let_def)

lemma ex_engine_reset: "ex_engine\<lparr>lastSignalTime := 0\<rparr> = ex_engine"
  by (simp add: ex_engine_def)

lemma ex_engine_spec_movement:
  "spec_polyMoveBps (polySnapshots ex_engine) = Fin (1099511627776001 / 1099511627776)"
  using calculatePolyMovement_spec[of ex_engine] by (simp add: ex_engine_movement)

lemma ex_engine_length: "length (polySnapshots ex_engine) = 2"
  by (simp add: ex_engine_def)

lemma default_env_valid: "env_valid default_env"
  by (simp add: env_valid_def default_env_def)

lemma default_env_min_edge: "ARB_MIN_EDGE_BPS default_env = 20"
  by (simp add: default_env_def)

section \<open>Signal engine: the edge\<close>

text \<open>
  Claim C6.  \<open>calculatePolyMovement\<close> is the specification's formula on the oldest and
  the newest entry of the history, evaluated in double arithmetic, and 0 when the history
  has fewer than two entries.  The edge carried by an emitted signal, and the edge and the
  counterpart movement logged with an \<open>insufficient_edge\<close> discard, are
  \<open>|moveBps| - |polyMoveBps|\<close> of that movement; the engine signals only when this
  edge is not below the minimum and discards as \<open>insufficient_edge\<close> only when it is.
\<close>

theorem edge_calculation:
  "calculatePolyMovement e = spec_polyMoveBps (polySnapshots e) \<and>
   (length (polySnapshots e) < 2 \<longrightarrow> calculatePolyMovement e = Fin 0) \<and>
   (2 \<le> length (polySnapshots e) \<longrightarrow>
      calculatePolyMovement e
        = js_mul (js_sub (js_div (midPrice (last (polySnapshots e)))
                                 (midPrice (hd (polySnapshots e)))) (Fin 1)) (Fin 10000)) \<and>
   (\<forall>sg. snd (processSpotMove env now e sy pr moveBps dir) = [Signal sg] \<longrightarrow>
      edgeBps sg = js_sub (js_abs moveBps) (js_abs (calculatePolyMovement e)) \<and>
      \<not> js_lt (edgeBps sg) (Fin (ARB_MIN_EDGE_BPS env))) \<and>
   (\<forall>d. snd (processSpotMove env now e sy pr moveBps dir) = [Discard insufficient_edge d] \<longrightarrow>
      map_of d ''polyMoveBps'' = Some (VNum (calculatePolyMovement e)) \<and>
      map_of d ''edgeBps'' =
        Some (VNum (js_sub (js_abs moveBps) (js_abs (calculatePolyMovement e)))) \<and>
      js_lt (js_sub (js_abs moveBps) (js_abs (calculatePolyMovement e)))
            (Fin (ARB_MIN_EDGE_BPS env)))"
proof (intro conjI allI impI)
  show "calculatePolyMovement e = spec_polyMoveBps (polySnapshots e)"
    by (rule calculatePolyMovement_spec)
next
  assume "length (polySnapshots e) < 2"
  then show "calculatePolyMovement e = Fin 0"
    by (simp add: calculatePolyMovement_def)
next
  assume "2 \<le> length (polySnapshots e)"
  then show "calculatePolyMovement e
        = js_mul (js_sub (js_div (midPrice (last (polySnapshots e)))
                                 (midPrice (hd (polySnapshots e)))) (Fin 1)) (Fin 10000)"
    by (simp add: calculatePolyMovement_spec spec_polyMoveBps_def)
next
  fix sg
  assume a: "snd (processSpotMove env now e sy pr moveBps dir) = [Signal sg]"
  then show "edgeBps sg = js_sub (js_abs moveBps) (js_abs (calculatePolyMovement e))"
    by (auto simp: processSpotMove_def Let_def split: option.splits if_splits)
  from a show "\<not> js_lt (edgeBps sg) (Fin (ARB_MIN_EDGE_BPS env))"
    by (auto simp: processSpotMove_def Let_def split: option.splits if_splits)
next
  fix d
  assume a: "snd (processSpotMove env now e sy pr moveBps dir) = [Discard insufficient_edge d]"
  then show "map_of d ''polyMoveBps'' = Some (VNum (calculatePolyMovement e))"
    by (auto simp: processSpotMove_def spot_fields_def Let_def split: option.splits if_splits)
  from a show "map_of d ''edgeBps'' =
        Some (VNum (js_sub (js_abs moveBps) (js_abs (calculatePolyMovement e))))"
    by (auto simp: processSpotMove_def spot_fields_def Let_def split: option.splits if_splits)
  from a show "js_lt (js_sub (js_abs moveBps) (js_abs (calculatePolyMovement e)))
            (Fin (ARB_MIN_EDGE_BPS env))"
    by (auto simp: processSpotMove_def spot_fields_def Let_def split: option.splits if_splits)
qed

text \<open>
  With the mid prices 100 and 110 the movement is \<open>1000 + 2 ^ - 40\<close>.  A move of
  1300 bps is signalled with the edge \<open>300 - 2 ^ - 40\<close>; a move of 1020 bps has the edge
  \<open>20 - 2 ^ - 40\<close>, just below the minimum of 20, and is discarded.
\<close>

theorem edge_calculation_witness:
  "calculatePolyMovement engine_init = Fin 0 \<and>
   calculatePolyMovement ex_engine = Fin (1000 + 1 / 2 ^ 40) \<and>
   snd (processSpotMove default_env 100000 ex_engine ''BTCUSDT'' (Fin 100) (Fin 1300) Up)
     = [Signal \<lparr> sigTimestamp = 100000, spotSymbol = ''BTCUSDT'', spotPrice = Fin 100,
                 spotMoveBps = Fin 1300, spotDirection = Up, polyTokenId = ''tok'',
                 polyMidPrice = Fin 110, polySpreadBps = Fin 40, polyDepth = Fin 100,
                 edgeBps = Fin (300 - 1 / 2 ^ 40), reason = ''latency_opportunity'' \<rparr>] \<and>
   snd (processSpotMove default_env 100000 ex_engine ''BTCUSDT'' (Fin 100) (Fin 1020) Up)
     = [Discard insufficient_edge
          [(''spotSymbol'', VStr ''BTCUSDT''), (''spotPrice'', VNum (Fin 100)),
           (''spotMoveBps'', VNum (Fin 1020)), (''spotDirection'', VDir Up),
           (''polyMoveBps'', VNum (Fin (1000 + 1 / 2 ^ 40))),
           (''edgeBps'', VNum (Fin (20 - 1 / 2 ^ 40))),
           (''minRequired'', VNum (Fin 20))]] \<and>
   js_lt (Fin (20 - 1 / 2 ^ 40)) (Fin (ARB_MIN_EDGE_BPS default_env))"
proof -
  have init: "calculatePolyMovement engine_init = Fin 0"
    by (simp add: calculatePolyMovement_def engine_init_def)
  show ?thesis
    using edge_calculation [of ex_engine default_env 100000 "''BTCUSDT''" "Fin 100" "Fin 1300" Up]
      edge_calculation [of ex_engine default_env 100000 "''BTCUSDT''" "Fin 100" "Fin 1020" Up]
      ex_engine_move_1300 [of 100000 0]
    by (simp add: init ex_engine_reset ex_engine_move_1020 ex_engine_movement
        ex_engine_spec_movement ex_engine_length default_env_min_edge edge_1300 edge_1020)
qed

section \<open>Signal engine: the cooldown\<close>

text \<open>
  Claim C7, as amended.  A signal emitted at time \<open>t\<close> leaves \<open>lastSignalTime = t\<close>.
  From a state with \<open>lastSignalTime = t\<close>, a non-empty history and passing spread and
  depth gates, a move at \<open>t + cooldownMs - 1\<close> is discarded as \<open>cooldown\<close> and leaves
  the state as it is, and a move at \<open>t + cooldownMs\<close> passes the cooldown gate: the edge
  gate alone decides between an \<open>insufficient_edge\<close> discard and a signal.  A new
  engine has \<open>lastSignalTime = 0\<close>, and with \<open>lastSignalTime = 0\<close> a move is never
  discarded as \<open>cooldown\<close> when \<open>cooldownMs \<le> now\<close>.
\<close>

theorem cooldown_boundary:
  "(\<forall>e1 sg. processSpotMove env t e sy pr mv dir = (e1, [Signal sg]) \<longrightarrow> lastSignalTime e1 = t) \<and>
   (lastSignalTime e1 = t \<and> polySnapshots e1 \<noteq> [] \<and>
    \<not> gate_fails env t e1 mv' wide_spread \<and> \<not> gate_fails env t e1 mv' low_depth \<longrightarrow>
      (\<exists>d. processSpotMove env (t + ARB_COOLDOWN_MS env - 1) e1 sy' pr' mv' dir'
             = (e1, [Discard cooldown d])) \<and>
      (if gate_fails env (t + ARB_COOLDOWN_MS env) e1 mv' insufficient_edge
       then \<exists>d. processSpotMove env (t + ARB_COOLDOWN_MS env) e1 sy' pr' mv' dir'
                  = (e1, [Discard insufficient_edge d])
       else \<exists>sg. processSpotMove env (t + ARB_COOLDOWN_MS env) e1 sy' pr' mv' dir'
                  = (e1\<lparr>lastSignalTime := t + ARB_COOLDOWN_MS env\<rparr>, [Signal sg]))) \<and>
   lastSignalTime engine_init = 0 \<and>
   (lastSignalTime e0 = 0 \<and> ARB_COOLDOWN_MS env \<le> now \<longrightarrow>
      (\<forall>d. snd (processSpotMove env now e0 sy pr mv dir) \<noteq> [Discard cooldown d]))"
proof (intro conjI allI impI)
  fix e1 sg
  assume "processSpotMove env t e sy pr mv dir = (e1, [Signal sg])"
  then show "lastSignalTime e1 = t"
    by (auto simp: processSpotMove_def Let_def split: option.splits if_splits)
next
  assume a: "lastSignalTime e1 = t \<and> polySnapshots e1 \<noteq> [] \<and>
    \<not> gate_fails env t e1 mv' wide_spread \<and> \<not> gate_fails env t e1 mv' low_depth"
  then show "\<exists>d. processSpotMove env (t + ARB_COOLDOWN_MS env - 1) e1 sy' pr' mv' dir'
             = (e1, [Discard cooldown d])"
    by (auto simp: processSpotMove_def getLatestPolySnapshot_last Let_def)
  from a show "if gate_fails env (t + ARB_COOLDOWN_MS env) e1 mv' insufficient_edge
       then \<exists>d. processSpotMove env (t + ARB_COOLDOWN_MS env) e1 sy' pr' mv' dir'
                  = (e1, [Discard insufficient_edge d])
       else \<exists>sg. processSpotMove env (t + ARB_COOLDOWN_MS env) e1 sy' pr' mv' dir'
                  = (e1\<lparr>lastSignalTime := t + ARB_COOLDOWN_MS env\<rparr>, [Signal sg])"
    by (auto simp: processSpotMove_def getLatestPolySnapshot_last calculatePolyMovement_spec
        spec_edgeBps_def Let_def)
next
  show "lastSignalTime engine_init = 0" by (simp add: engine_init_def)
next
  fix d
  assume "lastSignalTime e0 = 0 \<and> ARB_COOLDOWN_MS env \<le> now"
  then show "snd (processSpotMove env now e0 sy pr mv dir) \<noteq> [Discard cooldown d]"
    by (auto simp: processSpotMove_def Let_def split: option.splits if_splits)
qed

theorem cooldown_boundary_witness:
  "(\<exists>sg. processSpotMove default_env 100000 ex_engine ''BTCUSDT'' (Fin 100) (Fin 1300) Up
          = (ex_engine\<lparr>lastSignalTime := 100000\<rparr>, [Signal sg])) \<and>
   (\<exists>d. processSpotMove default_env 114999 (ex_engine\<lparr>lastSignalTime := 100000\<rparr>)
           ''BTCUSDT'' (Fin 100) (Fin 1300) Up
          = (ex_engine\<lparr>lastSignalTime := 100000\<rparr>, [Discard cooldown d])) \<and>
   (\<exists>sg. processSpotMove default_env 115000 (ex_engine\<lparr>lastSignalTime := 100000\<rparr>)
           ''BTCUSDT'' (Fin 100) (Fin 1300) Up
          = (ex_engine\<lparr>lastSignalTime := 115000\<rparr>, [Signal sg])) \<and>
   (\<forall>d. snd (processSpotMove default_env 100000 ex_engine ''BTCUSDT'' (Fin 100) (Fin 1300) Up)
          \<noteq> [Discard cooldown d])"
  using cooldown_boundary [where env = default_env and t = 100000
      and ?e1.0 = "ex_engine\<lparr>lastSignalTime := 100000\<rparr>" and mv' = "Fin 1300"
      and sy' = "''BTCUSDT''" and pr' = "Fin 100" and dir' = Up
      and ?e0.0 = ex_engine and now = 100000 and sy = "''BTCUSDT''" and pr = "Fin 100"
      and mv = "Fin 1300" and dir = Up]
    ex_engine_move_1300 [of 100000 0] ex_engine_move_1300 [of 114999 100000]
    ex_engine_move_1300 [of 115000 100000]
  by (simp add: ex_engine_reset)

text \<open>
  The claim as stated has no condition on the clock: the initial \<open>lastSignalTime\<close> would
  never block the first evaluation.  The gate compares \<open>now - 0\<close> with the cooldown.  At
  a clock reading of 1000 ms (a test clock that starts near 0), below the default cooldown
  of 15000 ms, the first move of a new engine that holds one good snapshot is discarded as
  \<open>cooldown\<close>; so it is at an epoch reading of 1700000000000 ms under a cooldown of
  2000000000000 ms, which the schema accepts.
\<close>

theorem first_evaluation_blocked:
  "processSpotMove default_env 1000
     (fst (updatePolySnapshot 1000 engine_init (snap (1/2) 40 100 1000)))
     ''BTCUSDT'' (Fin 100) (Fin 300) Up
   = (\<lparr> polySnapshots = [snap (1/2) 40 100 1000], lastSignalTime = 0 \<rparr>,
      [Discard cooldown
         [(''spotSymbol'', VStr ''BTCUSDT''), (''spotPrice'', VNum (Fin 100)),
          (''spotMoveBps'', VNum (Fin 300)), (''spotDirection'', VDir Up),
          (''timeSinceLastMs'', VInt 1000), (''cooldownMs'', VInt 15000)]]) \<and>
   env_valid (default_env\<lparr>ARB_COOLDOWN_MS := 2000000000000\<rparr>) \<and>
   processSpotMove (default_env\<lparr>ARB_COOLDOWN_MS := 2000000000000\<rparr>) 1700000000000
     (fst (updatePolySnapshot 1700000000000 engine_init (snap (1/2) 40 100 1700000000000)))
     ''BTCUSDT'' (Fin 100) (Fin 300) Up
   = (\<lparr> polySnapshots = [snap (1/2) 40 100 1700000000000], lastSignalTime = 0 \<rparr>,
      [Discard cooldown
         [(''spotSymbol'', VStr ''BTCUSDT''), (''spotPrice'', VNum (Fin 100)),
          (''spotMoveBps'', VNum (Fin 300)), (''spotDirection'', VDir Up),
          (''timeSinceLastMs'', VInt 1700000000000), (''cooldownMs'', VInt 2000000000000)]])"
  by (simp add: processSpotMove_def updatePolySnapshot_def engine_init_def snapshotWindowMs_def
      getLatestPolySnapshot_def snap_def default_env_def env_valid_def js_gt_def
      spot_fields_def Let_def)

section \<open>Signal engine: what a call changes\<close>

text \<open>
  Claim C10.  \<open>processSpotMove\<close> never changes the snapshot history.  On a discard the
  whole engine state is the one before the call; on a signal only \<open>lastSignalTime\<close> is
  assigned, the time of the call.  With a configuration the schema accepts (a positive
  cooldown), \<open>lastSignalTime\<close> differs after the call exactly when a signal was emitted.
  \<open>updatePolySnapshot\<close>, the other entry point, appends to the history and prunes it,
  and leaves \<open>lastSignalTime\<close>.
\<close>

theorem processSpotMove_frame:
  "polySnapshots (fst (processSpotMove env now e sy pr mv dir)) = polySnapshots e \<and>
   ((\<exists>r d. snd (processSpotMove env now e sy pr mv dir) = [Discard r d]) \<longrightarrow>
      fst (processSpotMove env now e sy pr mv dir) = e) \<and>
   ((\<exists>sg. snd (processSpotMove env now e sy pr mv dir) = [Signal sg]) \<longrightarrow>
      fst (processSpotMove env now e sy pr mv dir) = e\<lparr>lastSignalTime := now\<rparr>) \<and>
   (env_valid env \<longrightarrow>
      (lastSignalTime (fst (processSpotMove env now e sy pr mv dir)) \<noteq> lastSignalTime e
       \<longleftrightarrow> (\<exists>sg. snd (processSpotMove env now e sy pr mv dir) = [Signal sg]))) \<and>
   lastSignalTime (fst (updatePolySnapshot now e s)) = lastSignalTime e \<and>
   polySnapshots (fst (updatePolySnapshot now e s))
     = filter (\<lambda>x. now - 60000 \<le> timestamp x) (polySnapshots e @ [s])"
  by (auto simp: processSpotMove_def updatePolySnapshot_def snapshotWindowMs_def env_valid_def
      Let_def split: option.splits)

theorem processSpotMove_frame_witness:
  "env_valid default_env \<and>
   processSpotMove default_env 100000 ex_engine ''BTCUSDT'' (Fin 100) (Fin 1020) Up
     = (ex_engine,
        [Discard insufficient_edge
           [(''spotSymbol'', VStr ''BTCUSDT''), (''spotPrice'', VNum (Fin 100)),
            (''spotMoveBps'', VNum (Fin 1020)), (''spotDirection'', VDir Up),
            (''polyMoveBps'', VNum (Fin (1000 + 1 / 2 ^ 40))),
            (''edgeBps'', VNum (Fin (20 - 1 / 2 ^ 40))),
            (''minRequired'', VNum (Fin 20))]]) \<and>
   lastSignalTime (fst (processSpotMove default_env 100000 ex_engine ''BTCUSDT'' (Fin 100) (Fin 1300) Up))
     \<noteq> lastSignalTime ex_engine \<and>
   (\<exists>sg. snd (processSpotMove default_env 100000 ex_engine ''BTCUSDT'' (Fin 100) (Fin 1300) Up)
          = [Signal sg])"
  using processSpotMove_frame [of default_env 100000 ex_engine "''BTCUSDT''" "Fin 100" "Fin 1300" Up]
    processSpotMove_frame [of default_env 100000 ex_engine "''BTCUSDT''" "Fin 100" "Fin 1020" Up]
    ex_engine_move_1300 [of 100000 0]
  by (simp add: ex_engine_reset ex_engine_move_1020 ex_engine_lastSignalTime default_env_valid)

section \<open>Streaming feed: the window\<close>

lemma shift_old_dropWhile: "shift_old c xs = dropWhile (\<lambda>t. tsLocal t < c) xs"
  by (induction xs) auto

lemma shift_old_suffix: "suffix (shift_old c xs) xs"
  by (simp add: shift_old_dropWhile suffix_dropWhile)

lemma shift_old_keeps_last:
  "\<not> tsLocal t < c \<Longrightarrow> shift_old c (xs @ [t]) \<noteq> [] \<and> last (shift_old c (xs @ [t])) = t"
  by (induction xs) auto

lemma shift_old_bound:
  "sorted_wrt (<) (map tsLocal xs) \<Longrightarrow> \<forall>x \<in> set (shift_old c xs). c \<le> tsLocal x"
  by (induction xs) (auto simp: less_imp_le)

lemma shouldSample_latestPrice [simp]:
  "shouldSample env (s\<lparr>latestPrice := lp\<rparr>) tick = shouldSample env s tick"
  by (simp add: shouldSample_def last_sample_def)

lemma window_of_admit_tick:
  "window_of (admit_tick env s tick) sy =
     (if shouldSample env s tick \<and> sy = symbol tick
      then shift_old (tsLocal tick - SPOT_RETURN_WINDOW_MS env) (window_of s sy @ [tick])
      else window_of s sy)"
  by (simp add: admit_tick_def window_of_def Let_def)

lemma last_sample_admit_tick:
  "last_sample (admit_tick env s tick) sy =
     (if shouldSample env s tick \<and> sy = symbol tick then tsLocal tick else last_sample s sy)"
  by (simp add: admit_tick_def last_sample_def Let_def)

lemma fst_processTick: "fst (processTick env s tick) = admit_tick env s tick"
  by (simp add: processTick_def Let_def split: option.splits)

lemma shift_old_sorted:
  "sorted_wrt (<) (map tsLocal xs) \<Longrightarrow> sorted_wrt (<) (map tsLocal (shift_old c xs))"
  by (induction xs) auto

lemma shift_old_subset: "set (shift_old c xs) \<subseteq> set xs"
  by (induction xs) auto

lemma pushed_sorted:
  assumes "spot_inv s" "shouldSample env s tick" "0 < SPOT_BUFFER_SAMPLE_MS env"
  shows "sorted_wrt (<) (map tsLocal (window_of s (symbol tick) @ [tick]))"
proof -
  from assms(1) have srt: "sorted_wrt (<) (map tsLocal (window_of s (symbol tick)))"
    and le: "\<forall>x \<in> set (window_of s (symbol tick)). tsLocal x \<le> last_sample s (symbol tick)"
    by (simp_all add: spot_inv_def)
  from assms(2,3) have "last_sample s (symbol tick) < tsLocal tick"
    by (simp add: shouldSample_def)
  with le have "\<forall>x \<in> set (window_of s (symbol tick)). tsLocal x < tsLocal tick"
    by fastforce
  with srt show ?thesis by (simp add: sorted_wrt_append)
qed

lemma admit_tick_inv:
  assumes "0 < SPOT_BUFFER_SAMPLE_MS env" "spot_inv s"
  shows "spot_inv (admit_tick env s tick)"
proof (cases "shouldSample env s tick")
  case False
  with assms(2) show ?thesis
    by (simp add: spot_inv_def window_of_admit_tick last_sample_admit_tick)
next
  case True
  let ?c = "tsLocal tick - SPOT_RETURN_WINDOW_MS env"
  let ?w = "window_of s (symbol tick) @ [tick]"
  have srt: "sorted_wrt (<) (map tsLocal ?w)"
    using assms True by (rule_tac pushed_sorted) auto
  then have all_le: "\<forall>x \<in> set ?w. tsLocal x \<le> tsLocal tick"
    by (auto simp: sorted_wrt_append less_imp_le)
  have a: "sorted_wrt (<) (map tsLocal (shift_old ?c ?w))"
    using srt by (rule shift_old_sorted)
  have b: "\<forall>x \<in> set (shift_old ?c ?w). tsLocal x \<le> tsLocal tick"
    using all_le shift_old_subset[of ?c ?w] by blast
  show ?thesis
    unfolding spot_inv_def
  proof (intro allI)
    fix sy
    show "sorted_wrt (<) (map tsLocal (window_of (admit_tick env s tick) sy)) \<and>
          (\<forall>x \<in> set (window_of (admit_tick env s tick) sy).
             tsLocal x \<le> last_sample (admit_tick env s tick) sy)"
    proof (cases "sy = symbol tick")
      case True
      with \<open>shouldSample env s tick\<close> a b show ?thesis
        by (simp add: window_of_admit_tick last_sample_admit_tick)
    next
      case False
      with assms(2) show ?thesis
        by (simp add: spot_inv_def window_of_admit_tick last_sample_admit_tick)
    qed
  qed
qed

lemma spot_inv_init: "spot_inv spot_feed_init"
  by (simp add: spot_inv_def spot_feed_init_def window_of_def)

lemma process_ticks_inv:
  "0 < SPOT_BUFFER_SAMPLE_MS env \<Longrightarrow> spot_inv s \<Longrightarrow> spot_inv (process_ticks env s ticks)"
  by (induction ticks arbitrary: s) (simp_all add: fst_processTick admit_tick_inv)

lemma window_step_subseq:
  "subseq (window_of (admit_tick env s tick) sy) (window_of s sy @ [tick])"
proof (cases "shouldSample env s tick \<and> sy = symbol tick")
  case True
  then have "window_of (admit_tick env s tick) sy =
      shift_old (tsLocal tick - SPOT_RETURN_WINDOW_MS env) (window_of s sy @ [tick])"
    by (simp add: window_of_admit_tick)
  then show ?thesis by (simp only: shift_old_suffix suffix_imp_subseq)
next
  case False
  then have "window_of (admit_tick env s tick) sy = window_of s sy"
    by (auto simp: window_of_admit_tick)
  then show ?thesis by (simp add: prefix_imp_subseq)
qed

lemma suffix_is_drop:
  assumes "suffix xs ys"
  shows "\<exists>k. xs = drop k ys"
proof -
  from assms obtain zs where "ys = zs @ xs" by (auto simp: suffix_def)
  then have "xs = drop (length zs) ys" by simp
  then show ?thesis ..
qed

lemma process_ticks_subseq:
  "subseq (window_of (process_ticks env s ticks) sy) (window_of s sy @ ticks)"
proof (induction ticks arbitrary: s)
  case Nil
  show ?case by simp
next
  case (Cons t ts)
  have "subseq (window_of (admit_tick env s t) sy) (window_of s sy @ [t])"
    by (rule window_step_subseq)
  then have "subseq (window_of (admit_tick env s t) sy @ ts) ((window_of s sy @ [t]) @ ts)"
    by (rule list_emb_append_mono) simp
  moreover have "subseq (window_of (process_ticks env (admit_tick env s t) ts) sy)
                   (window_of (admit_tick env s t) sy @ ts)"
    by (rule Cons.IH)
  ultimately show ?case
    by (simp add: fst_processTick)
qed

lemma process_ticks_snoc:
  "process_ticks env s (ticks @ [t]) = fst (processTick env (process_ticks env s ticks) t)"
  by (induction ticks arbitrary: s) simp_all

text \<open>
  Claim C8.  Let \<open>s\<close> be the feed after any sequence of ticks, processed from the
  initial state under a configuration the schema accepts, and \<open>s'\<close> the feed after one
  more tick.  If the tick is admitted (the only case in which the window is pruned), every
  resident tick of its window has a local timestamp of at least \<open>now - returnWindowMs\<close>,
  where \<open>now\<close> is the local timestamp of the tick.  Every window of \<open>s'\<close> is the window
  of \<open>s\<close>, with the tick appended if it was admitted to it, less some ticks dropped at
  the oldest end.  The timestamps of the residents increase strictly, and the residents are
  a subsequence of the ticks in arrival order.
\<close>

theorem window_invariant:
  assumes "env_valid env" "s = process_ticks env spot_feed_init ticks"
    "s' = fst (processTick env s tick)"
  shows "(shouldSample env s tick \<longrightarrow>
            (\<forall>x \<in> set (window_of s' (symbol tick)).
               tsLocal tick - SPOT_RETURN_WINDOW_MS env \<le> tsLocal x)) \<and>
         (\<exists>k. window_of s' sy =
                drop k (window_of s sy @
                        (if shouldSample env s tick \<and> sy = symbol tick then [tick] else []))) \<and>
         sorted_wrt (<) (map tsLocal (window_of s' sy)) \<and>
         subseq (window_of s' sy) (ticks @ [tick])"
proof -
  from assms(1) have S: "0 < SPOT_BUFFER_SAMPLE_MS env" by (simp add: env_valid_def)
  have inv: "spot_inv s"
    unfolding assms(2) using S spot_inv_init by (rule process_ticks_inv)
  have s': "s' = admit_tick env s tick" by (simp add: assms(3) fst_processTick)
  have 1: "shouldSample env s tick \<longrightarrow>
            (\<forall>x \<in> set (window_of s' (symbol tick)).
               tsLocal tick - SPOT_RETURN_WINDOW_MS env \<le> tsLocal x)"
  proof
    assume sh: "shouldSample env s tick"
    from inv sh S have "sorted_wrt (<) (map tsLocal (window_of s (symbol tick) @ [tick]))"
      by (rule pushed_sorted)
    then have "\<forall>x \<in> set (shift_old (tsLocal tick - SPOT_RETURN_WINDOW_MS env)
                         (window_of s (symbol tick) @ [tick])).
               tsLocal tick - SPOT_RETURN_WINDOW_MS env \<le> tsLocal x"
      by (rule shift_old_bound)
    with sh show "\<forall>x \<in> set (window_of s' (symbol tick)).
               tsLocal tick - SPOT_RETURN_WINDOW_MS env \<le> tsLocal x"
      by (simp add: s' window_of_admit_tick)
  qed
  have 2: "\<exists>k. window_of s' sy =
                drop k (window_of s sy @
                        (if shouldSample env s tick \<and> sy = symbol tick then [tick] else []))"
  proof (cases "shouldSample env s tick \<and> sy = symbol tick")
    case True
    have "suffix (shift_old (tsLocal tick - SPOT_RETURN_WINDOW_MS env) (window_of s sy @ [tick]))
            (window_of s sy @ [tick])"
      by (rule shift_old_suffix)
    then obtain k where "shift_old (tsLocal tick - SPOT_RETURN_WINDOW_MS env) (window_of s sy @ [tick])
        = drop k (window_of s sy @ [tick])"
      using suffix_is_drop by blast
    with True show ?thesis by (auto simp: s' window_of_admit_tick)
  next
    case False
    then have "window_of s' sy = drop 0 (window_of s sy @ [])"
      by (auto simp: s' window_of_admit_tick)
    with False show ?thesis by (intro exI[of _ 0]) auto
  qed
  have "spot_inv s'" unfolding s' using S inv by (rule admit_tick_inv)
  then have 3: "sorted_wrt (<) (map tsLocal (window_of s' sy))"
    by (simp add: spot_inv_def)
  have "s' = process_ticks env spot_feed_init (ticks @ [tick])"
    by (simp add: process_ticks_snoc assms(2,3))
  then have 4: "subseq (window_of s' sy) (ticks @ [tick])"
    using process_ticks_subseq[of env spot_feed_init "ticks @ [tick]" sy]
    by (simp add: spot_feed_init_def window_of_def)
  from 1 2 3 4 show ?thesis by blast
qed

lemmas spot_eval =
  admit_tick_def window_return_def shouldSample_def last_sample_def
  window_of_def spot_feed_init_def ex_tick_def default_env_def Let_def

lemma ex_state2:
  "process_ticks default_env spot_feed_init [ex_tick 100 1000, ex_tick 100 50000]
   = \<lparr> priceBuffer = [''BTCUSDT'' \<mapsto> [ex_tick 100 1000, ex_tick 100 50000]],
       latestPrice = [''BTCUSDT'' \<mapsto> Fin 100],
       lastSampleTime = [''BTCUSDT'' \<mapsto> 50000] \<rparr>"
  by (simp add: fst_processTick spot_eval)

theorem window_invariant_witness:
  "env_valid default_env \<and>
   shouldSample default_env
     (process_ticks default_env spot_feed_init [ex_tick 100 1000, ex_tick 100 50000])
     (ex_tick 101 62000) \<and>
   window_of (fst (processTick default_env
       (process_ticks default_env spot_feed_init [ex_tick 100 1000, ex_tick 100 50000])
       (ex_tick 101 62000))) ''BTCUSDT''
     = [ex_tick 100 50000, ex_tick 101 62000] \<and>
   (62000 :: int) - 60000 \<le> tsLocal (ex_tick 100 50000)"
  using window_invariant [of default_env _ "[ex_tick 100 1000, ex_tick 100 50000]" _
      "ex_tick 101 62000" "''BTCUSDT''", OF _ refl refl]
  unfolding ex_state2 fst_processTick by (simp add: env_valid_def) (simp add: spot_eval)

section \<open>Streaming feed: the return and the move event\<close>

lemma nth0_hd: "Suc 0 < length xs \<Longrightarrow> xs ! 0 = hd xs"
  by (cases xs) auto

lemma window_return_Some:
  "window_return s2 tick = Some r \<longleftrightarrow>
     (1 < length (window_of s2 (symbol tick)) \<and>
      r = calculateReturn tick (hd (window_of s2 (symbol tick))))"
  by (auto simp: window_return_def window_of_def nth0_hd split: option.splits)

lemma window_return_None:
  "window_return s2 tick = None \<longleftrightarrow> length (window_of s2 (symbol tick)) < 2"
  by (auto simp: window_return_def window_of_def split: option.splits)

text \<open>
  Claim C2.  A \<open>spot.move\<close> event of \<open>processTick\<close> carries the return computed for
  the tick, and that return has \<open>windowMs \<ge> 0.8 * returnWindowMs\<close> and
  \<open>|returnBps| \<ge> moveThresholdBps\<close>.  When the return computed for the tick has
  \<open>windowMs < 0.8 * returnWindowMs\<close>, the call emits no move event.
\<close>

theorem move_gating:
  "(\<forall>r. SpotMove r \<in> set (snd (processTick env s tick)) \<longrightarrow>
      window_return (fst (processTick env s tick)) tick = Some r \<and>
      real_of_int (windowMs r) \<ge> real_of_int (SPOT_RETURN_WINDOW_MS env) * (8 / 10) \<and>
      js_ge (js_abs (returnBps r)) (Fin (SPOT_MOVE_THRESHOLD_BPS env))) \<and>
   (\<forall>r. window_return (admit_tick env s tick) tick = Some r \<and>
        real_of_int (windowMs r) < real_of_int (SPOT_RETURN_WINDOW_MS env) * (8 / 10) \<longrightarrow>
        (\<forall>r'. SpotMove r' \<notin> set (snd (processTick env s tick))))"
  by (auto simp: processTick_def Let_def split: option.splits if_splits)

text \<open>
  The returns of the examples.  From 100 to 110 the return is \<open>1000 + 2 ^ - 40\<close> bps in
  double arithmetic (1000.0000000000009); from 100 to 100 it is 0, and the direction of a
  zero return is down.
\<close>

lemma bps_100_100:
  "js_mul (js_sub (js_div (Fin 100) (Fin 100)) (Fin 1)) (Fin 10000) = Fin 0"
  by (simp add: js_div_def js_sub_def js_add_def js_mul_def signed_zero_def)

lemma ex_return_110:
  "calculateReturn (ex_tick 110 t) (ex_tick 100 t0)
   = \<lparr> retSymbol = ''BTCUSDT'', currentPrice = Fin 110, pastPrice = Fin 100,
       returnBps = Fin (1099511627776001 / 1099511627776), direction = Up,
       windowMs = t - t0 \<rparr>"
  by (simp add: calculateReturn_def ex_tick_def bps_110_100 js_gt_def Let_def)

lemma ex_return_100:
  "calculateReturn (ex_tick 100 t) (ex_tick 100 t0)
   = \<lparr> retSymbol = ''BTCUSDT'', currentPrice = Fin 100, pastPrice = Fin 100,
       returnBps = Fin 0, direction = Down, windowMs = t - t0 \<rparr>"
  by (simp add: calculateReturn_def ex_tick_def bps_100_100 js_gt_def Let_def)

lemma ex_window_62000:
  "window_of (admit_tick default_env
       (process_ticks default_env spot_feed_init [ex_tick 100 1000, ex_tick 100 50000])
       (ex_tick 110 62000)) ''BTCUSDT''
   = [ex_tick 100 50000, ex_tick 110 62000]"
  unfolding ex_state2 by (simp add: spot_eval)

lemma ex_window_50250:
  "window_of (admit_tick default_env
       (process_ticks default_env spot_feed_init [ex_tick 100 1000, ex_tick 100 50000])
       (ex_tick 110 50250)) ''BTCUSDT''
   = [ex_tick 100 1000, ex_tick 100 50000, ex_tick 110 50250]"
  unfolding ex_state2 by (simp add: spot_eval)

lemma ex_window_50100:
  "window_of (admit_tick default_env
       (process_ticks default_env spot_feed_init [ex_tick 100 1000, ex_tick 100 50000])
       (ex_tick 110 50100)) ''BTCUSDT''
   = [ex_tick 100 1000, ex_tick 100 50000]"
  unfolding ex_state2 by (simp add: spot_eval)

lemma window_return_eval:
  "window_return s2 tick =
     (if 1 < length (window_of s2 (symbol tick))
      then Some (calculateReturn tick (hd (window_of s2 (symbol tick)))) else None)"
  by (auto simp: window_return_def window_of_def nth0_hd split: option.splits)

lemma ex_tick_symbol: "symbol (ex_tick p t) = ''BTCUSDT''"
  by (simp add: ex_tick_def)

lemma ex_return_62000:
  "window_return (admit_tick default_env
       (process_ticks default_env spot_feed_init [ex_tick 100 1000, ex_tick 100 50000])
       (ex_tick 110 62000)) (ex_tick 110 62000)
   = Some \<lparr> retSymbol = ''BTCUSDT'', currentPrice = Fin 110, pastPrice = Fin 100,
            returnBps = Fin (1099511627776001 / 1099511627776), direction = Up,
            windowMs = 12000 \<rparr>"
  unfolding window_return_eval ex_tick_symbol ex_window_62000 by (simp add: ex_return_110)

lemma ex_return_50250:
  "window_return (admit_tick default_env
       (process_ticks default_env spot_feed_init [ex_tick 100 1000, ex_tick 100 50000])
       (ex_tick 110 50250)) (ex_tick 110 50250)
   = Some \<lparr> retSymbol = ''BTCUSDT'', currentPrice = Fin 110, pastPrice = Fin 100,
            returnBps = Fin (1099511627776001 / 1099511627776), direction = Up,
            windowMs = 49250 \<rparr>"
  unfolding window_return_eval ex_tick_symbol ex_window_50250 by (simp add: ex_return_110)

lemma ex_return_50100:
  "window_return (admit_tick default_env
       (process_ticks default_env spot_feed_init [ex_tick 100 1000, ex_tick 100 50000])
       (ex_tick 110 50100)) (ex_tick 110 50100)
   = Some \<lparr> retSymbol = ''BTCUSDT'', currentPrice = Fin 110, pastPrice = Fin 100,
            returnBps = Fin (1099511627776001 / 1099511627776), direction = Up,
            windowMs = 49100 \<rparr>"
  unfolding window_return_eval ex_tick_symbol ex_window_50100 by (simp add: ex_return_110)

lemma ex_events_62000:
  "snd (processTick default_env
       (process_ticks default_env spot_feed_init [ex_tick 100 1000, ex_tick 100 50000])
       (ex_tick 110 62000))
   = [SpotTickLog ''BTCUSDT'' (Fin 110) 20 61980 62000]"
  unfolding processTick_def Let_def ex_return_62000 by (simp add: ex_tick_def default_env_def)

lemma ex_events_50250:
  "snd (processTick default_env
       (process_ticks default_env spot_feed_init [ex_tick 100 1000, ex_tick 100 50000])
       (ex_tick 110 50250))
   = [SpotTickLog ''BTCUSDT'' (Fin 110) 20 50230 50250,
      SpotMove \<lparr> retSymbol = ''BTCUSDT'', currentPrice = Fin 110, pastPrice = Fin 100,
                 returnBps = Fin (1099511627776001 / 1099511627776), direction = Up,
                 windowMs = 49250 \<rparr>]"
  unfolding processTick_def Let_def ex_return_50250
  by (simp add: ex_tick_def default_env_def js_ge_def)

text \<open>
  A return of about 1000 bps over 12000 ms emits nothing; the same return over 49250 ms
  is emitted.
\<close>

theorem move_gating_witness:
  "snd (processTick default_env
       (process_ticks default_env spot_feed_init [ex_tick 100 1000, ex_tick 100 50000])
       (ex_tick 110 62000))
     = [SpotTickLog ''BTCUSDT'' (Fin 110) 20 61980 62000] \<and>
   window_return (admit_tick default_env
       (process_ticks default_env spot_feed_init [ex_tick 100 1000, ex_tick 100 50000])
       (ex_tick 110 62000)) (ex_tick 110 62000)
     = Some \<lparr> retSymbol = ''BTCUSDT'', currentPrice = Fin 110, pastPrice = Fin 100,
              returnBps = Fin (1000 + 1 / 2 ^ 40), direction = Up, windowMs = 12000 \<rparr> \<and>
   snd (processTick default_env
       (process_ticks default_env spot_feed_init [ex_tick 100 1000, ex_tick 100 50000])
       (ex_tick 110 50250))
     = [SpotTickLog ''BTCUSDT'' (Fin 110) 20 50230 50250,
        SpotMove \<lparr> retSymbol = ''BTCUSDT'', currentPrice = Fin 110, pastPrice = Fin 100,
                   returnBps = Fin (1000 + 1 / 2 ^ 40), direction = Up, windowMs = 49250 \<rparr>]"
  using move_gating [of default_env
      "process_ticks default_env spot_feed_init [ex_tick 100 1000, ex_tick 100 50000]"
      "ex_tick 110 62000"]
  unfolding ex_events_62000 ex_events_50250 ex_return_62000 by simp

text \<open>
  Claim C3, as amended.  The return is computed after the first stage of \<open>processTick\<close>
  (which changes the window only when the tick is admitted), exactly when the window of the
  symbol then holds at least two ticks, and it is the return between the tick being
  processed and the oldest resident tick; a move event carries this return.  A tick that
  was admitted is the newest resident tick.  \<open>returnBps\<close> is
  \<open>((current / past) - 1) * 10000\<close> as double arithmetic evaluates it, the direction is
  up when \<open>returnBps > 0\<close> and down otherwise, and \<open>windowMs\<close> is the local time
  elapsed between the two ticks.  For a current price of 110 and an oldest price of 100,
  \<open>returnBps\<close> is the double \<open>1000 + 2 ^ - 40\<close>, which prints as 1000.0000000000009,
  and the direction is up.
\<close>

theorem return_computation:
  "(\<forall>r. SpotMove r \<in> set (snd (processTick env s tick)) \<longrightarrow>
      window_return (admit_tick env s tick) tick = Some r) \<and>
   (window_return (admit_tick env s tick) tick = None \<longleftrightarrow>
      length (window_of (admit_tick env s tick) (symbol tick)) < 2) \<and>
   (\<forall>r. window_return (admit_tick env s tick) tick = Some r \<longrightarrow>
      r = calculateReturn tick (hd (window_of (admit_tick env s tick) (symbol tick)))) \<and>
   (shouldSample env s tick \<and> 0 \<le> SPOT_RETURN_WINDOW_MS env \<longrightarrow>
      window_of (admit_tick env s tick) (symbol tick) \<noteq> [] \<and>
      last (window_of (admit_tick env s tick) (symbol tick)) = tick) \<and>
   currentPrice (calculateReturn cur past) = price cur \<and>
   pastPrice (calculateReturn cur past) = price past \<and>
   returnBps (calculateReturn cur past)
     = js_mul (js_sub (js_div (price cur) (price past)) (Fin 1)) (Fin 10000) \<and>
   direction (calculateReturn cur past)
     = (if js_gt (returnBps (calculateReturn cur past)) (Fin 0) then Up else Down) \<and>
   windowMs (calculateReturn cur past) = tsLocal cur - tsLocal past \<and>
   (price cur = Fin 110 \<and> price past = Fin 100 \<longrightarrow>
      returnBps (calculateReturn cur past) = Fin (1000 + 1 / 2 ^ 40) \<and>
      direction (calculateReturn cur past) = Up)"
proof (intro conjI allI impI)
  fix r
  assume "SpotMove r \<in> set (snd (processTick env s tick))"
  then show "window_return (admit_tick env s tick) tick = Some r"
    by (auto simp: processTick_def Let_def split: option.splits if_splits)
next
  show "window_return (admit_tick env s tick) tick = None \<longleftrightarrow>
      length (window_of (admit_tick env s tick) (symbol tick)) < 2"
    by (rule window_return_None)
next
  fix r
  assume "window_return (admit_tick env s tick) tick = Some r"
  then show "r = calculateReturn tick (hd (window_of (admit_tick env s tick) (symbol tick)))"
    by (simp add: window_return_Some)
next
  assume a: "shouldSample env s tick \<and> 0 \<le> SPOT_RETURN_WINDOW_MS env"
  then have "\<not> tsLocal tick < tsLocal tick - SPOT_RETURN_WINDOW_MS env" by simp
  then have "shift_old (tsLocal tick - SPOT_RETURN_WINDOW_MS env)
               (window_of s (symbol tick) @ [tick]) \<noteq> [] \<and>
             last (shift_old (tsLocal tick - SPOT_RETURN_WINDOW_MS env)
               (window_of s (symbol tick) @ [tick])) = tick"
    by (rule shift_old_keeps_last)
  with a show "window_of (admit_tick env s tick) (symbol tick) \<noteq> []"
    and "last (window_of (admit_tick env s tick) (symbol tick)) = tick"
    by (simp_all add: window_of_admit_tick)
next
  show "currentPrice (calculateReturn cur past) = price cur"
    by (simp add: calculateReturn_def Let_def)
next
  show "pastPrice (calculateReturn cur past) = price past"
    by (simp add: calculateReturn_def Let_def)
next
  show "returnBps (calculateReturn cur past)
     = js_mul (js_sub (js_div (price cur) (price past)) (Fin 1)) (Fin 10000)"
    by (simp add: calculateReturn_def Let_def)
next
  show "direction (calculateReturn cur past)
     = (if js_gt (returnBps (calculateReturn cur past)) (Fin 0) then Up else Down)"
    by (simp add: calculateReturn_def Let_def)
next
  show "windowMs (calculateReturn cur past) = tsLocal cur - tsLocal past"
    by (simp add: calculateReturn_def Let_def)
next
  assume a: "price cur = Fin 110 \<and> price past = Fin 100"
  then show "returnBps (calculateReturn cur past) = Fin (1000 + 1 / 2 ^ 40)"
    by (simp add: calculateReturn_def bps_110_100 Let_def)
  from a show "direction (calculateReturn cur past) = Up"
    by (simp add: calculateReturn_def bps_110_100 js_gt_def Let_def)
qed

theorem return_computation_witness:
  "shouldSample default_env
     (process_ticks default_env spot_feed_init [ex_tick 100 1000, ex_tick 100 50000])
     (ex_tick 110 50250) \<and>
   window_of (admit_tick default_env
       (process_ticks default_env spot_feed_init [ex_tick 100 1000, ex_tick 100 50000])
       (ex_tick 110 50250)) ''BTCUSDT''
     = [ex_tick 100 1000, ex_tick 100 50000, ex_tick 110 50250] \<and>
   window_return (admit_tick default_env
       (process_ticks default_env spot_feed_init [ex_tick 100 1000, ex_tick 100 50000])
       (ex_tick 110 50250)) (ex_tick 110 50250)
     = Some (calculateReturn (ex_tick 110 50250) (ex_tick 100 1000)) \<and>
   calculateReturn (ex_tick 110 50250) (ex_tick 100 1000)
     = \<lparr> retSymbol = ''BTCUSDT'', currentPrice = Fin 110, pastPrice = Fin 100,
         returnBps = Fin (1000 + 1 / 2 ^ 40), direction = Up, windowMs = 49250 \<rparr> \<and>
   \<bar>(1000 + 1 / 2 ^ 40) - (1000 :: real)\<bar> < 1 / 10 ^ 12"
  using return_computation [of default_env
      "process_ticks default_env spot_feed_init [ex_tick 100 1000, ex_tick 100 50000]"
      "ex_tick 110 50250" "ex_tick 110 50250" "ex_tick 100 1000"]
  unfolding ex_return_50250 ex_window_50250 ex_return_110 ex_tick_symbol
  unfolding ex_state2
  by (simp add: shouldSample_def last_sample_def ex_tick_def default_env_def)

text \<open>
  The claim as stated takes the return between the newest and the oldest resident tick, and
  gives 1000.0 for the prices 100 and 110.  A tick at 50100 ms is not admitted after a
  sample at 50000 ms, so the window stays as it was; the return is still computed, from
  the price 110 of that tick, over 49100 ms, where the two resident ticks give 0 bps (and
  the direction down) over 49000 ms.  Its value is the double \<open>1000 + 2 ^ - 40\<close>, not
  1000.
\<close>

theorem return_uses_unadmitted_tick:
  "\<not> shouldSample default_env
       (process_ticks default_env spot_feed_init [ex_tick 100 1000, ex_tick 100 50000])
       (ex_tick 110 50100) \<and>
   window_of (process_ticks default_env spot_feed_init [ex_tick 100 1000, ex_tick 100 50000])
       ''BTCUSDT''
     = [ex_tick 100 1000, ex_tick 100 50000] \<and>
   window_of (admit_tick default_env
       (process_ticks default_env spot_feed_init [ex_tick 100 1000, ex_tick 100 50000])
       (ex_tick 110 50100)) ''BTCUSDT''
     = [ex_tick 100 1000, ex_tick 100 50000] \<and>
   window_return (admit_tick default_env
       (process_ticks default_env spot_feed_init [ex_tick 100 1000, ex_tick 100 50000])
       (ex_tick 110 50100)) (ex_tick 110 50100)
     = Some \<lparr> retSymbol = ''BTCUSDT'', currentPrice = Fin 110, pastPrice = Fin 100,
              returnBps = Fin (1000 + 1 / 2 ^ 40), direction = Up, windowMs = 49100 \<rparr> \<and>
   calculateReturn (ex_tick 100 50000) (ex_tick 100 1000)
     = \<lparr> retSymbol = ''BTCUSDT'', currentPrice = Fin 100, pastPrice = Fin 100,
         returnBps = Fin 0, direction = Down, windowMs = 49000 \<rparr> \<and>
   returnBps (calculateReturn (ex_tick 110 50100) (ex_tick 100 1000)) \<noteq> Fin 1000"
  unfolding ex_return_50100 ex_window_50100 ex_return_110 ex_return_100
  unfolding ex_state2
  by (simp add: shouldSample_def last_sample_def window_of_def ex_tick_def default_env_def)

text \<open>
  Two returns at the edge of the arithmetic, as the code computes them: a past price of
  the negative zero gives the return \<open>-Infinity\<close> and the direction down, and a ratio
  that overflows gives the return \<open>Infinity\<close>.
\<close>

lemma return_of_negative_zero:
  assumes "price cur = Fin 110" "price past = NZero"
  shows "returnBps (calculateReturn cur past) = NInf \<and> direction (calculateReturn cur past) = Down"
  using assms
  by (simp add: calculateReturn_def js_div_def js_sub_def js_add_def js_mul_def js_gt_def
      signed_inf_def Let_def)

lemma return_overflow:
  assumes "price cur = Fin (2 ^ 1023)" "price past = Fin (1 / 2 ^ 1000)"
  shows "returnBps (calculateReturn cur past) = PInf \<and> direction (calculateReturn cur past) = Up"
proof -
  have "rnd (2 ^ 1023 * 2 ^ 1000) = PInf" by (rule rnd_overflow) simp
  then have "js_div (Fin (2 ^ 1023)) (Fin (1 / 2 ^ 1000)) = PInf"
    by (simp add: js_div_def)
  with assms show ?thesis
    by (simp add: calculateReturn_def js_sub_def js_add_def js_mul_def js_gt_def
        signed_inf_def Let_def)
qed

section \<open>Polling feed: normalization\<close>

lemma mset_insert_sorted: "mset (insert_sorted cmp x ys) = add_mset x (mset ys)"
  by (induction ys) auto

lemma mset_foldl_insert:
  "mset (foldl (\<lambda>acc x. insert_sorted cmp x acc) acc xs) = mset acc + mset xs"
  by (induction xs arbitrary: acc) (simp_all add: mset_insert_sorted)

lemma sort_permutes_stable_sort: "sort_permutes stable_sort"
  by (simp add: sort_permutes_def stable_sort_def mset_foldl_insert)

lemma sort_permutes_set: "sort_permutes srt \<Longrightarrow> set (srt cmp xs) = set xs"
  by (metis sort_permutes_def set_mset_mset)

lemma sort_permutes_Nil: "sort_permutes srt \<Longrightarrow> srt cmp xs = [] \<longleftrightarrow> xs = []"
  by (metis sort_permutes_def mset_zero_iff)

lemma first_level_hd: "ls \<noteq> [] \<Longrightarrow> first_level ls = Inr (hd ls)"
  by (cases ls) (simp_all add: first_level_def)

lemma sortBidsDesc_Nil: "sort_permutes srt \<Longrightarrow> sortBidsDesc srt pf bs = [] \<longleftrightarrow> bs = []"
  by (simp add: sortBidsDesc_def sort_permutes_Nil)

lemma sortAsksAsc_Nil: "sort_permutes srt \<Longrightarrow> sortAsksAsc srt pf as = [] \<longleftrightarrow> as = []"
  by (simp add: sortAsksAsc_def sort_permutes_Nil)

lemma normalizeOrderbook_cases:
  assumes "sort_permutes srt"
  shows "normalizeOrderbook srt pf env now ob =
     (if bids ob = [] \<or> asks ob = [] then
        Inr (None, [OrderbookInvalid (length (bids ob)) (length (asks ob))])
      else if invalid_price (bestBid_of srt pf ob) \<or> invalid_price (bestAsk_of srt pf ob) then
        Inr (None, [OrderbookInvalidPrices (bestBid_of srt pf ob) (bestAsk_of srt pf ob)])
      else
        Inr (Some \<lparr> md_tokenId = POLYMARKET_TOKEN_ID env,
               md_midPrice = js_div (js_add (bestBid_of srt pf ob) (bestAsk_of srt pf ob)) (Fin 2),
               md_bestBid = bestBid_of srt pf ob, md_bestAsk = bestAsk_of srt pf ob,
               md_spreadBps =
                 js_mul (js_div (js_sub (bestAsk_of srt pf ob) (bestBid_of srt pf ob))
                           (js_div (js_add (bestBid_of srt pf ob) (bestAsk_of srt pf ob)) (Fin 2)))
                        (Fin 10000),
               md_depthTopN = calculateDepth pf env (sortBidsDesc srt pf (bids ob))
                                (sortAsksAsc srt pf (asks ob)),
               md_tsLocal = now \<rparr>, []))"
  using assms
  by (auto simp: normalizeOrderbook_def Let_def first_level_hd sortBidsDesc_Nil sortAsksAsc_Nil
      bestBid_of_def bestAsk_of_def invalid_price_def)

lemma invalid_price_iff:
  "invalid_price p \<longleftrightarrow> \<not> (p = PInf \<or> (\<exists>x. p = Fin x \<and> 0 < x))"
  by (cases p) (auto simp: invalid_price_def)

lemma bestBid_of_mem:
  assumes "sort_permutes srt" "bids ob \<noteq> []"
  shows "bestBid_of srt pf ob \<in> (\<lambda>l. pf (lvl_price l)) ` set (bids ob)"
proof -
  let ?s = "sortBidsDesc srt pf (bids ob)"
  from assms have "?s \<noteq> []" by (simp add: sortBidsDesc_Nil)
  then have "hd ?s \<in> set ?s" by simp
  also have "set ?s = set (bids ob)"
    using assms(1) by (simp add: sortBidsDesc_def sort_permutes_set)
  finally show ?thesis by (simp add: bestBid_of_def)
qed

lemma bestAsk_of_mem:
  assumes "sort_permutes srt" "asks ob \<noteq> []"
  shows "bestAsk_of srt pf ob \<in> (\<lambda>l. pf (lvl_price l)) ` set (asks ob)"
proof -
  let ?s = "sortAsksAsc srt pf (asks ob)"
  from assms have "?s \<noteq> []" by (simp add: sortAsksAsc_Nil)
  then have "hd ?s \<in> set ?s" by simp
  also have "set ?s = set (asks ob)"
    using assms(1) by (simp add: sortAsksAsc_def sort_permutes_set)
  finally show ?thesis by (simp add: bestAsk_of_def)
qed

subsection \<open>The crossed book of the specification, and a crossed book that overflows\<close>

text \<open>
  With a best bid of 101 and a best ask of 100 the mid price is 100.5, and the spread
  \<open>((100 - 101) / 100.5) * 10000\<close> comes out in double arithmetic as
  \<open>- 7001865092304875 / 2 ^ 46\<close>, which prints as -99.50248756218905.
\<close>

lemma div_201_2: "js_div (Fin 201) (Fin 2) = Fin (201 / 2)"
proof -
  have "rnd (201 / 2) = Fin (201 / 2)"
    by (rule rnd_evalI[where e = 6 and n = 7072058789855232]) (simp_all add: rhe_def)
  then show ?thesis by (simp add: js_div_def)
qed

lemma div_m1_mid:
  "js_div (Fin (- 1)) (Fin (201 / 2)) = Fin (- (2867963941808077 / 288230376151711744))"
proof -
  have "rnd (- (2 / 201)) = Fin (- (2867963941808077 / 288230376151711744))"
    by (rule rnd_neg_evalI[where e = "- 7" and n = 5735927883616154]) (simp_all add: rhe_def)
  then show ?thesis by (simp add: js_div_def)
qed

lemma mul_q_10000:
  "js_mul (Fin (- (2867963941808077 / 288230376151711744))) (Fin 10000)
   = Fin (- (7001865092304875 / 70368744177664))"
proof -
  have "rnd (- (1792477463630048125 / 18014398509481984))
        = Fin (- (7001865092304875 / 70368744177664))"
    by (rule rnd_neg_evalI[where e = 6 and n = 7001865092304875]) (simp_all add: rhe_def)
  then show ?thesis by (simp add: js_mul_def)
qed

text \<open>
  The sum of the doubles \<open>3 * 2 ^ 1022\<close> and \<open>2 ^ 1023\<close> overflows, their difference
  is exact.
\<close>

lemma add_big: "js_add (Fin (3 * 2 ^ 1022)) (Fin (2 ^ 1023)) = PInf"
proof -
  have "rnd (3 * 2 ^ 1022 + 2 ^ 1023) = PInf"
    by (rule rnd_overflow) simp
  then show ?thesis by (simp add: js_add_def)
qed

lemma sub_big: "js_sub (Fin (2 ^ 1023)) (Fin (3 * 2 ^ 1022)) = Fin (- (2 ^ 1022))"
proof -
  have "rnd (- (2 ^ 1022)) = Fin (- (2 ^ 1022))"
    by (rule rnd_neg_evalI[where e = 1022 and n = 4503599627370496]) (simp_all add: rhe_def)
  then show ?thesis by (simp add: js_sub_def js_add_def)
qed

lemma spread_big:
  "js_mul (js_div (js_sub (Fin (2 ^ 1023)) (Fin (3 * 2 ^ 1022)))
                  (js_div (js_add (Fin (3 * 2 ^ 1022)) (Fin (2 ^ 1023))) (Fin 2))) (Fin 10000)
   = NZero"
  unfolding add_big sub_big
  by (simp add: js_div_def js_mul_def signed_inf_def signed_zero_def)

lemma is_double_big: "is_double (Fin (3 * 2 ^ 1022)) \<and> is_double (Fin (2 ^ 1023))"
proof -
  have "rnd (3 * 2 ^ 1022) = Fin (3 * 2 ^ 1022)"
    by (rule rnd_evalI[where e = 1023 and n = 6755399441055744]) (simp_all add: rhe_def)
  moreover have "rnd (2 ^ 1023) = Fin (2 ^ 1023)"
    by (rule rnd_evalI[where e = 1023 and n = 4503599627370496]) (simp_all add: rhe_def)
  ultimately show ?thesis by simp
qed

subsection \<open>The stable sort sorts\<close>

text \<open>
  When the prices of a side are doubles and none of them is \<open>NaN\<close>, the comparator is
  consistent: the difference of two doubles has the sign of their order.  The stable sort
  then puts the bids in descending and the asks in ascending order of price, so the best
  bid is the highest bid and the best ask the lowest ask of the snapshot.
\<close>

lemma rnd_neg_double:
  assumes "rnd y = Fin y"
  shows "rnd (- y) = Fin (- y)"
proof -
  consider "y = 0" | "0 < y" | "y < 0" by linarith
  then show ?thesis
  proof cases
    case 1
    then show ?thesis by (simp add: rnd_def)
  next
    case 2
    with assms have "round_pos y = Fin y" by (rule_tac rnd_fix_pos)
    with 2 show ?thesis by (simp add: rnd_def)
  next
    case 3
    with assms have "round_pos (- y) = Fin (- y)" by (rule_tac rnd_fix_neg)
    with 3 show ?thesis by (simp add: rnd_def)
  qed
qed

lemma rnd_zero: "rnd 0 = Fin 0"
  by (simp add: rnd_def)

lemma is_double_js_neg: "is_double a \<Longrightarrow> is_double (js_neg a)"
  by (cases a) (simp_all add: rnd_neg_double rnd_zero)

lemma double_sub_sign:
  assumes "rnd x = Fin x" "rnd y = Fin y" "x \<noteq> y"
  shows "js_gt (rnd (x - y)) (Fin 0) \<longleftrightarrow> y < x"
proof (cases "y < x")
  case True
  with assms have "2 powi (- 1074) \<le> x - y" by (intro double_diff_ge) simp_all
  from round_pos_grid_pos[OF this] True show ?thesis
    by (auto simp: rnd_def js_gt_def)
next
  case False
  with assms(3) have lt: "x < y" by simp
  then have "0 < y - x" by simp
  from round_pos_class[OF this] lt show ?thesis
    by (auto simp: rnd_def js_gt_def split: if_splits)
qed

lemma js_sub_gt0:
  assumes "is_double a" "is_double b" "\<not> isNaN a" "\<not> isNaN b"
  shows "js_gt (js_sub a b) (Fin 0) \<longleftrightarrow> js_lt b a"
proof (cases a)
  case NaN
  with assms show ?thesis by simp
next
  case NInf
  with assms(4) show ?thesis
    by (cases b) (simp_all add: js_sub_def js_add_def js_gt_def)
next
  case PInf
  with assms(4) show ?thesis
    by (cases b) (simp_all add: js_sub_def js_add_def js_gt_def)
next
  case NZero
  show ?thesis
  proof (cases b)
    case (Fin y)
    with assms(2) have "rnd (- y) = Fin (- y)" by (simp add: rnd_neg_double)
    with NZero Fin show ?thesis
      by (simp add: js_sub_def js_add_def js_gt_def signed_zero_def)
  qed (use NZero assms(4) in \<open>simp_all add: js_sub_def js_add_def js_gt_def signed_zero_def\<close>)
next
  case a: (Fin x)
  with assms(1) have dx: "rnd x = Fin x" by simp
  show ?thesis
  proof (cases b)
    case (Fin y)
    with assms(2) have dy: "rnd y = Fin y" by simp
    show ?thesis
    proof (cases "x = y")
      case True
      with a Fin show ?thesis
        by (simp add: js_sub_def js_add_def js_gt_def signed_zero_def)
    next
      case False
      have "js_sub (Fin x) (Fin y) = rnd (x - y)"
        using False dx by (simp add: js_sub_def js_add_def)
      with double_sub_sign[OF dx dy False] a Fin show ?thesis by simp
    qed
  next
    case NZero
    with a dx show ?thesis
      by (simp add: js_sub_def js_add_def js_gt_def signed_zero_def)
  qed (use a assms(4) in \<open>simp_all add: js_sub_def js_add_def js_gt_def\<close>)
qed

lemma js_le_trans: "js_le a b \<Longrightarrow> js_le b c \<Longrightarrow> js_le a c"
  by (cases a; cases b; cases c) simp_all

lemma js_not_lt_le: "\<not> isNaN a \<Longrightarrow> \<not> isNaN b \<Longrightarrow> \<not> js_lt a b \<Longrightarrow> js_le b a"
  by (cases a; cases b) simp_all

lemma js_lt_le: "js_lt a b \<Longrightarrow> js_le a b"
  by (cases a; cases b) simp_all

lemma set_insert_sorted: "set (insert_sorted cmp x ys) = insert x (set ys)"
  by (induction ys) auto

lemma set_stable_sort: "set (stable_sort cmp xs) = set xs"
  using sort_permutes_stable_sort by (metis mset_foldl_insert set_mset_mset stable_sort_def
      add.left_neutral mset.simps(1))

text \<open>Insertion by a key whose values are doubles, never \<open>NaN\<close>, keeps the keys descending.\<close>

lemma insert_sorted_desc:
  assumes "\<not> isNaN (k x)" "is_double (k x)"
    "\<forall>y \<in> set ys. \<not> isNaN (k y) \<and> is_double (k y)"
    "sorted_wrt (\<lambda>a b. js_le (k b) (k a)) ys"
  shows "sorted_wrt (\<lambda>a b. js_le (k b) (k a))
           (insert_sorted (\<lambda>a b. js_sub (k b) (k a)) x ys)"
  using assms
proof (induction ys)
  case Nil
  then show ?case by simp
next
  case (Cons y ys)
  show ?case
  proof (cases "js_gt (js_sub (k x) (k y)) (Fin 0)")
    case True
    with Cons.prems have lt: "js_lt (k y) (k x)" by (simp add: js_sub_gt0)
    then have "js_le (k y) (k x)" by (rule js_lt_le)
    moreover from this Cons.prems(4) have "\<forall>z \<in> set ys. js_le (k z) (k x)"
      by (auto intro: js_le_trans)
    ultimately show ?thesis using True Cons.prems(4) by simp
  next
    case False
    with Cons.prems have "\<not> js_lt (k y) (k x)" by (simp add: js_sub_gt0)
    with Cons.prems have "js_le (k x) (k y)" by (simp add: js_not_lt_le)
    moreover have "sorted_wrt (\<lambda>a b. js_le (k b) (k a))
           (insert_sorted (\<lambda>a b. js_sub (k b) (k a)) x ys)"
      using Cons.prems by (intro Cons.IH) auto
    ultimately show ?thesis using False Cons.prems(4)
      by (auto simp: set_insert_sorted)
  qed
qed

lemma foldl_insert_desc:
  assumes "\<forall>y \<in> set acc \<union> set xs. \<not> isNaN (k y) \<and> is_double (k y)"
    "sorted_wrt (\<lambda>a b. js_le (k b) (k a)) acc"
  shows "sorted_wrt (\<lambda>a b. js_le (k b) (k a))
           (foldl (\<lambda>acc x. insert_sorted (\<lambda>a b. js_sub (k b) (k a)) x acc) acc xs)"
  using assms
proof (induction xs arbitrary: acc)
  case Nil
  then show ?case by simp
next
  case (Cons x xs)
  have "sorted_wrt (\<lambda>a b. js_le (k b) (k a)) (insert_sorted (\<lambda>a b. js_sub (k b) (k a)) x acc)"
    using Cons.prems by (intro insert_sorted_desc) auto
  moreover have "\<forall>y \<in> set (insert_sorted (\<lambda>a b. js_sub (k b) (k a)) x acc) \<union> set xs.
                   \<not> isNaN (k y) \<and> is_double (k y)"
    using Cons.prems by (auto simp: set_insert_sorted)
  ultimately show ?case using Cons.IH by simp
qed

lemma sortBidsDesc_sorted:
  assumes "\<forall>l \<in> set bs. \<not> isNaN (pf (lvl_price l)) \<and> is_double (pf (lvl_price l))"
  shows "sorted_wrt (\<lambda>a b. js_le (pf (lvl_price b)) (pf (lvl_price a)))
           (sortBidsDesc stable_sort pf bs)"
  using foldl_insert_desc[of "[]" bs "\<lambda>l. pf (lvl_price l)"] assms
  by (simp add: sortBidsDesc_def stable_sort_def Let_def)

lemma js_add_commute: "js_add a b = js_add b a"
  by (cases a; cases b) (simp_all add: js_add_def add.commute conj_commute)

lemma js_neg_neg [simp]: "js_neg (js_neg a) = a"
  by (cases a) simp_all

lemma isNaN_js_neg [simp]: "isNaN (js_neg a) = isNaN a"
  by (cases a) simp_all

lemma js_le_neg: "js_le (js_neg a) (js_neg b) \<longleftrightarrow> js_le b a"
  by (cases a; cases b) simp_all

lemma js_le_refl: "\<not> isNaN a \<Longrightarrow> js_le a a"
  by (cases a) simp_all

lemma sortAsksAsc_sorted:
  assumes "\<forall>l \<in> set as. \<not> isNaN (pf (lvl_price l)) \<and> is_double (pf (lvl_price l))"
  shows "sorted_wrt (\<lambda>a b. js_le (pf (lvl_price a)) (pf (lvl_price b)))
           (sortAsksAsc stable_sort pf as)"
proof -
  have cmp: "(\<lambda>a b. js_sub (pf (lvl_price a)) (pf (lvl_price b)))
           = (\<lambda>a b. js_sub (js_neg (pf (lvl_price b))) (js_neg (pf (lvl_price a))))"
    by (simp add: js_sub_def js_add_commute)
  have "sorted_wrt (\<lambda>a b. js_le (js_neg (pf (lvl_price b))) (js_neg (pf (lvl_price a))))
          (foldl (\<lambda>acc x. insert_sorted
             (\<lambda>a b. js_sub (js_neg (pf (lvl_price b))) (js_neg (pf (lvl_price a)))) x acc) [] as)"
    using assms by (intro foldl_insert_desc) (auto simp: is_double_js_neg)
  then show ?thesis
    by (simp add: sortAsksAsc_def stable_sort_def Let_def cmp js_le_neg)
qed

lemma best_bid_is_highest:
  assumes "\<forall>l \<in> set (bids ob). \<not> isNaN (pf (lvl_price l)) \<and> is_double (pf (lvl_price l))"
    "l \<in> set (bids ob)"
  shows "js_le (pf (lvl_price l)) (bestBid_of stable_sort pf ob)"
proof -
  let ?s = "sortBidsDesc stable_sort pf (bids ob)"
  from assms(2) have "l \<in> set ?s" by (simp add: sortBidsDesc_def set_stable_sort)
  then obtain x xs where s: "?s = x # xs" by (cases ?s) auto
  have "sorted_wrt (\<lambda>a b. js_le (pf (lvl_price b)) (pf (lvl_price a))) (x # xs)"
    using sortBidsDesc_sorted[OF assms(1)] by (simp add: s)
  moreover have "x \<in> set (bids ob)"
    using s set_stable_sort[of _ "bids ob"] by (metis list.set_intros(1) sortBidsDesc_def)
  then have "js_le (pf (lvl_price x)) (pf (lvl_price x))"
    using assms(1) by (simp add: js_le_refl)
  ultimately show ?thesis
    using \<open>l \<in> set ?s\<close> by (auto simp: bestBid_of_def s)
qed

lemma best_ask_is_lowest:
  assumes "\<forall>l \<in> set (asks ob). \<not> isNaN (pf (lvl_price l)) \<and> is_double (pf (lvl_price l))"
    "l \<in> set (asks ob)"
  shows "js_le (bestAsk_of stable_sort pf ob) (pf (lvl_price l))"
proof -
  let ?s = "sortAsksAsc stable_sort pf (asks ob)"
  from assms(2) have "l \<in> set ?s" by (simp add: sortAsksAsc_def set_stable_sort)
  then obtain x xs where s: "?s = x # xs" by (cases ?s) auto
  have "sorted_wrt (\<lambda>a b. js_le (pf (lvl_price a)) (pf (lvl_price b))) (x # xs)"
    using sortAsksAsc_sorted[OF assms(1)] by (simp add: s)
  moreover have "x \<in> set (asks ob)"
    using s set_stable_sort[of _ "asks ob"] by (metis list.set_intros(1) sortAsksAsc_def)
  then have "js_le (pf (lvl_price x)) (pf (lvl_price x))"
    using assms(1) by (simp add: js_le_refl)
  ultimately show ?thesis
    using \<open>l \<in> set ?s\<close> by (auto simp: bestAsk_of_def s)
qed

subsection \<open>Validation and the computed data\<close>

text \<open>
  Claim C4, as amended.  Whatever order the sort returns the levels in,
  \<open>normalizeOrderbook\<close> never raises.  It returns no data exactly when a side is
  empty, or a best price parses to \<open>NaN\<close> or to a value \<open>\<le> 0\<close>; the best prices
  are prices of the snapshot.  A best price that parses to \<open>+Infinity\<close> passes the
  validation (the mid price is then infinite and the spread \<open>NaN\<close>).  A rejected
  snapshot is a poll error: \<open>poll\<close> goes to \<open>handlePollError\<close> and logs no
  snapshot.  For every accepted snapshot the data are \<open>mid = (bid + ask) / 2\<close>,
  \<open>spreadBps = ((ask - bid) / mid) * 10000\<close>, in double arithmetic, and the depth of
  the sorted book.  A crossed book whose best prices are finite doubles
  \<open>bid > ask > 0\<close> is accepted; its spread is below zero, unless the sum
  \<open>bid + ask\<close> overflows: then the mid price is \<open>Infinity\<close> and the spread is the
  negative zero.
\<close>

theorem normalizeOrderbook_validation:
  assumes "sort_permutes srt"
  shows "normalizeOrderbook srt pf env now ob \<noteq> Inl ex \<and>
   ((\<exists>evs. normalizeOrderbook srt pf env now ob = Inr (None, evs)) \<longleftrightarrow>
      (bids ob = [] \<or> asks ob = [] \<or>
       isNaN (bestBid_of srt pf ob) \<or> isNaN (bestAsk_of srt pf ob) \<or>
       js_le (bestBid_of srt pf ob) (Fin 0) \<or> js_le (bestAsk_of srt pf ob) (Fin 0))) \<and>
   (bids ob \<noteq> [] \<and> asks ob \<noteq> [] \<longrightarrow>
      bestBid_of srt pf ob \<in> (\<lambda>l. pf (lvl_price l)) ` set (bids ob) \<and>
      bestAsk_of srt pf ob \<in> (\<lambda>l. pf (lvl_price l)) ` set (asks ob)) \<and>
   (bids ob \<noteq> [] \<and> asks ob \<noteq> [] \<and> bestBid_of srt pf ob = PInf \<and>
    bestAsk_of srt pf ob = Fin a \<and> 0 < a
      \<longrightarrow> (\<exists>md. normalizeOrderbook srt pf env now ob = Inr (Some md, []) \<and>
                 md_midPrice md = PInf \<and> md_spreadBps md = NaN)) \<and>
   (\<forall>md evs. normalizeOrderbook srt pf env now ob = Inr (Some md, evs) \<longrightarrow>
      md_bestBid md = bestBid_of srt pf ob \<and> md_bestAsk md = bestAsk_of srt pf ob \<and>
      md_midPrice md = js_div (js_add (md_bestBid md) (md_bestAsk md)) (Fin 2) \<and>
      md_spreadBps md =
        js_mul (js_div (js_sub (md_bestAsk md) (md_bestBid md)) (md_midPrice md)) (Fin 10000) \<and>
      md_depthTopN md =
        calculateDepth pf env (sortBidsDesc srt pf (bids ob)) (sortAsksAsc srt pf (asks ob))) \<and>
   (bids ob \<noteq> [] \<and> asks ob \<noteq> [] \<and> bestBid_of srt pf ob = Fin b \<and>
    bestAsk_of srt pf ob = Fin a \<and> is_double (Fin b) \<and> is_double (Fin a) \<and> 0 < a \<and> a < b
      \<longrightarrow> (\<exists>md. normalizeOrderbook srt pf env now ob = Inr (Some md, []) \<and>
                 (md_midPrice md = PInf \<longleftrightarrow> js_add (Fin b) (Fin a) = PInf) \<and>
                 (if md_midPrice md = PInf then md_spreadBps md = NZero
                  else js_lt (md_spreadBps md) (Fin 0)))) \<and>
   (\<forall>nevs. normalizeOrderbook srt pf env now ob = Inr (None, nevs) \<longrightarrow>
      poll_resume srt pf env now f (FetchBook ob)
        = ((fst (handlePollError env f ''Failed to normalize orderbook''))\<lparr>inFlight := False\<rparr>,
           nevs @ snd (handlePollError env f ''Failed to normalize orderbook'')))"
proof (intro conjI allI impI)
  note cases = normalizeOrderbook_cases[OF assms]
  show "normalizeOrderbook srt pf env now ob \<noteq> Inl ex"
    by (simp add: cases)
  show "(\<exists>evs. normalizeOrderbook srt pf env now ob = Inr (None, evs)) \<longleftrightarrow>
      (bids ob = [] \<or> asks ob = [] \<or>
       isNaN (bestBid_of srt pf ob) \<or> isNaN (bestAsk_of srt pf ob) \<or>
       js_le (bestBid_of srt pf ob) (Fin 0) \<or> js_le (bestAsk_of srt pf ob) (Fin 0))"
    by (auto simp: cases invalid_price_def)
  {
    assume "bids ob \<noteq> [] \<and> asks ob \<noteq> []"
    then show "bestBid_of srt pf ob \<in> (\<lambda>l. pf (lvl_price l)) ` set (bids ob)"
      and "bestAsk_of srt pf ob \<in> (\<lambda>l. pf (lvl_price l)) ` set (asks ob)"
      using assms by (simp_all add: bestBid_of_mem bestAsk_of_mem)
  }
  {
    assume "bids ob \<noteq> [] \<and> asks ob \<noteq> [] \<and> bestBid_of srt pf ob = PInf \<and>
      bestAsk_of srt pf ob = Fin a \<and> 0 < a"
    then show "\<exists>md. normalizeOrderbook srt pf env now ob = Inr (Some md, []) \<and>
                 md_midPrice md = PInf \<and> md_spreadBps md = NaN"
      by (simp add: cases invalid_price_def js_sub_def js_add_def js_div_def js_mul_def
          signed_inf_def)
  }
  {
    fix md evs
    assume a: "normalizeOrderbook srt pf env now ob = Inr (Some md, evs)"
    then have md: "md = \<lparr> md_tokenId = POLYMARKET_TOKEN_ID env,
               md_midPrice = js_div (js_add (bestBid_of srt pf ob) (bestAsk_of srt pf ob)) (Fin 2),
               md_bestBid = bestBid_of srt pf ob, md_bestAsk = bestAsk_of srt pf ob,
               md_spreadBps =
                 js_mul (js_div (js_sub (bestAsk_of srt pf ob) (bestBid_of srt pf ob))
                           (js_div (js_add (bestBid_of srt pf ob) (bestAsk_of srt pf ob)) (Fin 2)))
                        (Fin 10000),
               md_depthTopN = calculateDepth pf env (sortBidsDesc srt pf (bids ob))
                                (sortAsksAsc srt pf (asks ob)),
               md_tsLocal = now \<rparr>"
      by (simp add: cases split: if_splits)
    show "md_bestBid md = bestBid_of srt pf ob" by (simp add: md)
    show "md_bestAsk md = bestAsk_of srt pf ob" by (simp add: md)
    show "md_midPrice md = js_div (js_add (md_bestBid md) (md_bestAsk md)) (Fin 2)"
      by (simp add: md)
    show "md_spreadBps md =
          js_mul (js_div (js_sub (md_bestAsk md) (md_bestBid md)) (md_midPrice md)) (Fin 10000)"
      by (simp add: md)
    show "md_depthTopN md =
          calculateDepth pf env (sortBidsDesc srt pf (bids ob)) (sortAsksAsc srt pf (asks ob))"
      by (simp add: md)
  }
  {
    assume a: "bids ob \<noteq> [] \<and> asks ob \<noteq> [] \<and> bestBid_of srt pf ob = Fin b \<and>
      bestAsk_of srt pf ob = Fin a \<and> is_double (Fin b) \<and> is_double (Fin a) \<and> 0 < a \<and> a < b"
    then have "is_double (Fin a)" "is_double (Fin b)" "0 < a" "a < b" by simp_all
    from crossed_spread_sharp[OF this] a
    show "\<exists>md. normalizeOrderbook srt pf env now ob = Inr (Some md, []) \<and>
                 (md_midPrice md = PInf \<longleftrightarrow> js_add (Fin b) (Fin a) = PInf) \<and>
                 (if md_midPrice md = PInf then md_spreadBps md = NZero
                  else js_lt (md_spreadBps md) (Fin 0))"
      by (auto simp: cases invalid_price_def)
  }
  {
    fix nevs
    assume "normalizeOrderbook srt pf env now ob = Inr (None, nevs)"
    then show "poll_resume srt pf env now f (FetchBook ob)
          = ((fst (handlePollError env f ''Failed to normalize orderbook''))\<lparr>inFlight := False\<rparr>,
             nevs @ snd (handlePollError env f ''Failed to normalize orderbook''))"
      by (simp add: poll_resume_def split: prod.splits)
  }
qed

lemmas book_eval =
  normalizeOrderbook_def sortBidsDesc_def sortAsksAsc_def stable_sort_def calculateDepth_def
  first_level_def ex_parse_def lvl_def ex_book_def ex_book_inf_def ex_book_big_def
  default_env_def js_sub_def js_add_def js_gt_def Let_def

lemma ex_book_sorted:
  "sortBidsDesc stable_sort ex_parse (bids ex_book) = [lvl ''101'' ''3'', lvl ''99'' ''5'']"
  "sortAsksAsc stable_sort ex_parse (asks ex_book) = [lvl ''100'' ''2'', lvl ''102'' ''4'']"
  by (simp_all add: book_eval)

lemma ex_book_best:
  "bestBid_of stable_sort ex_parse ex_book = Fin 101"
  "bestAsk_of stable_sort ex_parse ex_book = Fin 100"
  by (simp_all add: bestBid_of_def bestAsk_of_def ex_book_sorted lvl_def ex_parse_def)

lemma ex_book_data:
  "normalizeOrderbook stable_sort ex_parse (default_env\<lparr>POLY_DEPTH_LEVELS := n\<rparr>) now ex_book
   = Inr (Some \<lparr> md_tokenId = ''tok'', md_midPrice = Fin (201 / 2), md_bestBid = Fin 101,
                  md_bestAsk = Fin 100,
                  md_spreadBps = Fin (- (7001865092304875 / 70368744177664)),
                  md_depthTopN =
                    calculateDepth ex_parse (default_env\<lparr>POLY_DEPTH_LEVELS := n\<rparr>)
                      [lvl ''101'' ''3'', lvl ''99'' ''5''] [lvl ''100'' ''2'', lvl ''102'' ''4''],
                  md_tsLocal = now \<rparr>, [])"
  unfolding normalizeOrderbook_cases[OF sort_permutes_stable_sort] ex_book_best
  by (simp add: ex_book_sorted invalid_price_def div_201_2 div_m1_mid mul_q_10000 js_sub_def
      js_add_def)
     (simp add: ex_book_def default_env_def)

lemma ex_book_depth_1:
  "calculateDepth ex_parse (default_env\<lparr>POLY_DEPTH_LEVELS := 1\<rparr>)
     [lvl ''101'' ''3'', lvl ''99'' ''5''] [lvl ''100'' ''2'', lvl ''102'' ''4''] = Fin 5"
  by (simp add: calculateDepth_def ex_parse_def lvl_def js_add_def Let_def)

text \<open>
  The crossed book of the specification, bids (99, 5), (101, 3) and asks (102, 4),
  (100, 2) with one depth level: best bid 101, best ask 100, mid price 100.5, depth 5, and
  the spread \<open>- 7001865092304875 / 2 ^ 46\<close> bps (-99.50248756218905), which is -99.50
  to two decimals.
\<close>

theorem normalizeOrderbook_validation_witness:
  "sort_permutes stable_sort \<and>
   bestBid_of stable_sort ex_parse ex_book = Fin 101 \<and>
   bestAsk_of stable_sort ex_parse ex_book = Fin 100 \<and>
   is_double (Fin 101) \<and> is_double (Fin 100) \<and>
   normalizeOrderbook stable_sort ex_parse (default_env\<lparr>POLY_DEPTH_LEVELS := 1\<rparr>) 7 ex_book
     = Inr (Some \<lparr> md_tokenId = ''tok'', md_midPrice = Fin (201 / 2), md_bestBid = Fin 101,
                    md_bestAsk = Fin 100, md_spreadBps = Fin (- (7001865092304875 / 2 ^ 46)),
                    md_depthTopN = Fin 5, md_tsLocal = 7 \<rparr>, []) \<and>
   js_add (Fin 101) (Fin 100) = Fin 201 \<and>
   js_lt (Fin (- (7001865092304875 / 2 ^ 46))) (Fin 0) \<and>
   \<bar>- (7001865092304875 / 2 ^ 46) - (- 99.50 :: real)\<bar> < 0.01"
  using normalizeOrderbook_validation [where srt = stable_sort and pf = ex_parse
      and env = "default_env\<lparr>POLY_DEPTH_LEVELS := 1\<rparr>" and now = 7 and ob = ex_book
      and b = 101 and a = 100 and f = feed_init, OF sort_permutes_stable_sort]
  unfolding ex_book_data ex_book_best ex_book_depth_1
  by (simp add: sort_permutes_stable_sort div_201_2 div_m1_mid mul_q_10000 js_sub_def
      js_add_def)

text \<open>
  The claim as stated rejects every best price that parses to a non-finite value, and
  gives every crossed book a negative spread.  The code tests \<open>isNaN\<close> only: a best bid
  that reads \<open>Infinity\<close> is accepted, with an infinite mid price and a \<open>NaN\<close> spread.
  And in the crossed book with a best bid of \<open>3 * 2 ^ 1022\<close> (about 1.35e308) and a
  best ask of \<open>2 ^ 1023\<close> (about 8.99e307) the sum of the two overflows: the mid price
  is \<open>Infinity\<close> and the spread the negative zero, which is not below zero.
\<close>

theorem infinite_best_price_accepted:
  "\<not> isFinite (ex_parse ''Infinity'') \<and>
   normalizeOrderbook stable_sort ex_parse default_env 7 ex_book_inf
     = Inr (Some \<lparr> md_tokenId = ''tok'', md_midPrice = PInf, md_bestBid = PInf,
                    md_bestAsk = Fin (1 / 2), md_spreadBps = NaN,
                    md_depthTopN = Fin 2, md_tsLocal = 7 \<rparr>, []) \<and>
   js_lt (Fin (2 ^ 1023)) (Fin (3 * 2 ^ 1022)) \<and>
   normalizeOrderbook stable_sort ex_parse default_env 7 ex_book_big
     = Inr (Some \<lparr> md_tokenId = ''tok'', md_midPrice = PInf,
                    md_bestBid = Fin (3 * 2 ^ 1022), md_bestAsk = Fin (2 ^ 1023),
                    md_spreadBps = NZero, md_depthTopN = Fin 2, md_tsLocal = 7 \<rparr>, []) \<and>
   is_double (Fin (3 * 2 ^ 1022)) \<and> is_double (Fin (2 ^ 1023)) \<and>
   \<not> js_lt NZero (Fin 0)"
proof -
  have inf: "normalizeOrderbook stable_sort ex_parse default_env 7 ex_book_inf
     = Inr (Some \<lparr> md_tokenId = ''tok'', md_midPrice = PInf, md_bestBid = PInf,
                    md_bestAsk = Fin (1 / 2), md_spreadBps = NaN,
                    md_depthTopN = Fin 2, md_tsLocal = 7 \<rparr>, [])"
    by (simp add: book_eval) (simp add: js_div_def js_mul_def signed_inf_def)
  have best: "bestBid_of stable_sort ex_parse ex_book_big = Fin (3 * 2 ^ 1022)"
    "bestAsk_of stable_sort ex_parse ex_book_big = Fin (2 ^ 1023)"
    by (simp_all add: bestBid_of_def bestAsk_of_def sortBidsDesc_def sortAsksAsc_def
        stable_sort_def ex_book_big_def lvl_def ex_parse_def)
  have depth: "calculateDepth ex_parse default_env
       (sortBidsDesc stable_sort ex_parse (bids ex_book_big))
       (sortAsksAsc stable_sort ex_parse (asks ex_book_big)) = Fin 2"
    by (simp add: calculateDepth_def sortBidsDesc_def sortAsksAsc_def stable_sort_def
        ex_book_big_def lvl_def ex_parse_def default_env_def js_add_def Let_def)
  have big: "normalizeOrderbook stable_sort ex_parse default_env 7 ex_book_big
     = Inr (Some \<lparr> md_tokenId = ''tok'', md_midPrice = PInf,
                    md_bestBid = Fin (3 * 2 ^ 1022), md_bestAsk = Fin (2 ^ 1023),
                    md_spreadBps = NZero, md_depthTopN = Fin 2, md_tsLocal = 7 \<rparr>, [])"
    unfolding normalizeOrderbook_cases[OF sort_permutes_stable_sort] best depth
    unfolding add_big sub_big
    by (simp add: invalid_price_def js_div_def js_mul_def signed_inf_def signed_zero_def)
       (simp add: ex_book_big_def default_env_def)
  show ?thesis
    unfolding inf big using is_double_big by (simp add: ex_parse_def)
qed

text \<open>
  When a price parses to \<open>NaN\<close> the outcome depends on the order the sort returns,
  which the language leaves open.  For the bids 0, \<open>abc\<close>, 0.5 a sort that exchanges
  nothing leaves the bid 0 first, and the snapshot is rejected; the stable insertion sort
  puts 0.5 first, and the snapshot is accepted.  The theorem above covers both.
\<close>

lemma nan_price_order_matters:
  "sort_permutes keep_order \<and> sort_permutes stable_sort \<and>
   bestBid_of keep_order ex_parse ex_book_nan = Fin 0 \<and>
   (\<exists>evs. normalizeOrderbook keep_order ex_parse default_env 7 ex_book_nan = Inr (None, evs)) \<and>
   bestBid_of stable_sort ex_parse ex_book_nan = Fin (1 / 2) \<and>
   (\<exists>md. normalizeOrderbook stable_sort ex_parse default_env 7 ex_book_nan = Inr (Some md, []))"
proof -
  have k: "sort_permutes keep_order" by (simp add: sort_permutes_def keep_order_def)
  have bk: "bestBid_of keep_order ex_parse ex_book_nan = Fin 0"
    "bestAsk_of keep_order ex_parse ex_book_nan = Fin 1"
    by (simp_all add: bestBid_of_def bestAsk_of_def sortBidsDesc_def sortAsksAsc_def
        keep_order_def ex_book_nan_def lvl_def ex_parse_def)
  have half: "rnd (1 / 2) = Fin (1 / 2)"
    by (rule rnd_evalI[where e = "- 1" and n = 4503599627370496]) (simp_all add: rhe_def)
  have bs: "bestBid_of stable_sort ex_parse ex_book_nan = Fin (1 / 2)"
    "bestAsk_of stable_sort ex_parse ex_book_nan = Fin 1"
    by (simp_all add: bestBid_of_def bestAsk_of_def sortBidsDesc_def sortAsksAsc_def
        stable_sort_def ex_book_nan_def lvl_def ex_parse_def js_sub_def js_add_def js_gt_def
        signed_zero_def half)
  have ne: "bids ex_book_nan \<noteq> []" "asks ex_book_nan \<noteq> []"
    by (simp_all add: ex_book_nan_def)
  have "\<exists>evs. normalizeOrderbook keep_order ex_parse default_env 7 ex_book_nan = Inr (None, evs)"
    unfolding normalizeOrderbook_cases[OF k] bk using ne by (simp add: invalid_price_def)
  moreover have "\<exists>md. normalizeOrderbook stable_sort ex_parse default_env 7 ex_book_nan
      = Inr (Some md, [])"
    unfolding normalizeOrderbook_cases[OF sort_permutes_stable_sort] bs using ne
    by (simp add: invalid_price_def)
  ultimately show ?thesis using k sort_permutes_stable_sort bk(1) bs(1) by blast
qed

section \<open>Polling feed: backoff\<close>

lemma handlePollError_fields:
  "consecutiveErrors (fst (handlePollError env f msg)) = consecutiveErrors f + 1 \<and>
   currentBackoffMs (fst (handlePollError env f msg))
     = min (POLY_SNAPSHOT_INTERVAL_MS env * 2 ^ consecutiveErrors f) 30000 \<and>
   inFlight (fst (handlePollError env f msg)) = inFlight f \<and>
   isRunning (fst (handlePollError env f msg)) = isRunning f \<and>
   pollTimer (fst (handlePollError env f msg)) = pollTimer f"
  by (simp add: handlePollError_def maxBackoffMs_def Let_def)

lemma fst_poll_resume:
  "fst (poll_resume srt pf env now f r) =
     (case r of
        FetchThrows msg \<Rightarrow> fst (handlePollError env f msg)
      | FetchNull \<Rightarrow> fst (handlePollError env f ''No orderbook data returned'')
      | FetchBook ob \<Rightarrow>
         (case normalizeOrderbook srt pf env now ob of
            Inl ex \<Rightarrow> fst (handlePollError env f ''TypeError'')
          | Inr (None, nevs) \<Rightarrow> fst (handlePollError env f ''Failed to normalize orderbook'')
          | Inr (Some md, nevs) \<Rightarrow> f\<lparr>consecutiveErrors := 0, currentBackoffMs := 0\<rparr>))
     \<lparr>inFlight := False\<rparr>"
  by (simp add: poll_resume_def split_beta
      split: fetch_result.splits sum.splits option.splits prod.splits)

lemma poll_resume_failed:
  assumes "poll_failed srt pf env now r"
  shows "\<exists>msg. fst (poll_resume srt pf env now f r)
           = (fst (handlePollError env f msg))\<lparr>inFlight := False\<rparr>"
  using assms
  by (auto simp: poll_failed_def fst_poll_resume split: fetch_result.splits sum.splits
      option.splits prod.splits)

text \<open>
  Claim C5.  A poll that ends in an error increments \<open>consecutiveErrors\<close> and sets
  \<open>currentBackoffMs = min (baseIntervalMs * 2 ^ (consecutiveErrors - 1)) 30000\<close>, with
  the incremented counter; a poll that ends with valid data resets both to 0.  With a base
  interval of 5000 ms, six errors in a row from a counter of 0 set the backoffs 5000,
  10000, 20000, 30000, 30000, 30000.  \<open>handlePollError\<close> logs the backoff notice exactly
  when the incremented counter exceeds 1, and the notice carries the new backoff and
  counter.
\<close>

theorem poll_backoff:
  "(poll_failed srt pf env now r \<longrightarrow>
      consecutiveErrors (fst (poll_resume srt pf env now f r)) = consecutiveErrors f + 1 \<and>
      currentBackoffMs (fst (poll_resume srt pf env now f r))
        = min (POLY_SNAPSHOT_INTERVAL_MS env
                 * 2 ^ (consecutiveErrors (fst (poll_resume srt pf env now f r)) - 1)) 30000) \<and>
   (\<not> poll_failed srt pf env now r \<longrightarrow>
      consecutiveErrors (fst (poll_resume srt pf env now f r)) = 0 \<and>
      currentBackoffMs (fst (poll_resume srt pf env now f r)) = 0) \<and>
   (POLY_SNAPSHOT_INTERVAL_MS env = 5000 \<and> consecutiveErrors f = 0 \<longrightarrow>
      backoffs_of_errors env f 6 = [5000, 10000, 20000, 30000, 30000, 30000]) \<and>
   ((\<exists>b n. PollBackoffLog b n \<in> set (snd (handlePollError env f msg)))
      \<longleftrightarrow> 1 < consecutiveErrors (fst (handlePollError env f msg))) \<and>
   (\<forall>b n. PollBackoffLog b n \<in> set (snd (handlePollError env f msg)) \<longrightarrow>
      b = currentBackoffMs (fst (handlePollError env f msg)) \<and>
      n = consecutiveErrors (fst (handlePollError env f msg)))"
proof (intro conjI allI impI)
  assume pf: "poll_failed srt pf env now r"
  then obtain msg where m: "fst (poll_resume srt pf env now f r)
           = (fst (handlePollError env f msg))\<lparr>inFlight := False\<rparr>"
    using poll_resume_failed by blast
  show "consecutiveErrors (fst (poll_resume srt pf env now f r)) = consecutiveErrors f + 1"
    by (simp add: m handlePollError_fields)
  show "currentBackoffMs (fst (poll_resume srt pf env now f r))
        = min (POLY_SNAPSHOT_INTERVAL_MS env
                 * 2 ^ (consecutiveErrors (fst (poll_resume srt pf env now f r)) - 1)) 30000"
    by (simp add: m handlePollError_fields)
next
  assume npf: "\<not> poll_failed srt pf env now r"
  then show "consecutiveErrors (fst (poll_resume srt pf env now f r)) = 0"
    by (auto simp: poll_failed_def fst_poll_resume split: fetch_result.splits sum.splits
        option.splits prod.splits)
  from npf show "currentBackoffMs (fst (poll_resume srt pf env now f r)) = 0"
    by (auto simp: poll_failed_def fst_poll_resume split: fetch_result.splits sum.splits
        option.splits prod.splits)
next
  assume "POLY_SNAPSHOT_INTERVAL_MS env = 5000 \<and> consecutiveErrors f = 0"
  then show "backoffs_of_errors env f 6 = [5000, 10000, 20000, 30000, 30000, 30000]"
    by (simp add: eval_nat_numeral handlePollError_def maxBackoffMs_def Let_def)
next
  show "(\<exists>b n. PollBackoffLog b n \<in> set (snd (handlePollError env f msg)))
      \<longleftrightarrow> 1 < consecutiveErrors (fst (handlePollError env f msg))"
    by (auto simp: handlePollError_def Let_def)
next
  fix b n
  assume a: "PollBackoffLog b n \<in> set (snd (handlePollError env f msg))"
  then show "b = currentBackoffMs (fst (handlePollError env f msg))"
    by (auto simp: handlePollError_def Let_def split: if_splits)
  from a show "n = consecutiveErrors (fst (handlePollError env f msg))"
    by (auto simp: handlePollError_def Let_def split: if_splits)
qed

lemmas poll_eval =
  handlePollError_def maxBackoffMs_def poll_begin_def schedulePoll_def start_def stop_def
  poll_sys_init_def feed_init_def default_env_def Let_def

lemma ex_book_accepted:
  "\<exists>md. normalizeOrderbook stable_sort ex_parse default_env now ex_book = Inr (Some md, [])"
proof -
  have "default_env\<lparr>POLY_DEPTH_LEVELS := 10\<rparr> = default_env"
    by (simp add: default_env_def)
  with ex_book_data[of 10 now] show ?thesis by simp
qed

lemma ex_book_not_failed:
  "\<not> poll_failed stable_sort ex_parse default_env now (FetchBook ex_book)"
  using ex_book_accepted[of now] by (auto simp: poll_failed_def)

lemma ex_book_resume:
  "fst (poll_resume stable_sort ex_parse default_env now f (FetchBook ex_book))
   = f\<lparr>consecutiveErrors := 0, currentBackoffMs := 0, inFlight := False\<rparr>"
  using ex_book_accepted[of now] by (auto simp: fst_poll_resume)

theorem poll_backoff_witness:
  "poll_failed stable_sort ex_parse default_env 7 FetchNull \<and>
   currentBackoffMs (fst (poll_resume stable_sort ex_parse default_env 7 feed_init FetchNull)) = 5000 \<and>
   backoffs_of_errors default_env feed_init 6 = [5000, 10000, 20000, 30000, 30000, 30000] \<and>
   snd (handlePollError default_env feed_init ''e'') = [PollErrorLog ''e'' 1 5000] \<and>
   snd (handlePollError default_env (fst (handlePollError default_env feed_init ''e'')) ''e'')
     = [PollErrorLog ''e'' 2 10000, PollBackoffLog 10000 2] \<and>
   \<not> poll_failed stable_sort ex_parse default_env 7 (FetchBook ex_book) \<and>
   consecutiveErrors (fst (poll_resume stable_sort ex_parse default_env 7
       (fst (handlePollError default_env feed_init ''e'')) (FetchBook ex_book))) = 0 \<and>
   currentBackoffMs (fst (poll_resume stable_sort ex_parse default_env 7
       (fst (handlePollError default_env feed_init ''e'')) (FetchBook ex_book))) = 0"
  using poll_backoff [where srt = stable_sort and pf = ex_parse and env = default_env and now = 7 and r = FetchNull
      and f = feed_init and msg = "''e''"]
    poll_backoff [where srt = stable_sort and pf = ex_parse and env = default_env and now = 7
      and r = "FetchBook ex_book" and f = "fst (handlePollError default_env feed_init ''e'')"
      and msg = "''e''"]
  unfolding ex_book_resume
  by (simp add: ex_book_not_failed) (simp add: poll_failed_def fst_poll_resume poll_eval)

section \<open>Polling feed: no overlapping polls\<close>

lemma inFlight_schedulePoll [simp]: "inFlight (schedulePoll env f) = inFlight f"
  by (simp add: schedulePoll_def Let_def)

lemma inFlight_poll_resume [simp]: "inFlight (fst (poll_resume srt pf env now f r)) = False"
  by (simp add: fst_poll_resume)

lemma sys_step_inv: "sys_inv s \<Longrightarrow> sys_inv (sys_step srt pf env s a)"
proof (cases a)
  case TimerFires
  assume "sys_inv s"
  with TimerFires show ?thesis by (simp add: sys_inv_def poll_begin_def)
next
  case (FetchSettles r now)
  assume "sys_inv s"
  with FetchSettles show ?thesis
    by (simp add: sys_inv_def split_beta)
next
  case CallStart
  assume "sys_inv s"
  with CallStart show ?thesis by (simp add: sys_inv_def start_def)
next
  case CallStop
  assume "sys_inv s"
  with CallStop show ?thesis by (simp add: sys_inv_def stop_def)
qed

lemma sys_run_inv: "sys_inv s \<Longrightarrow> sys_inv (sys_run srt pf env s as)"
  by (induction as arbitrary: s) (simp_all add: sys_step_inv)

lemma sys_inv_init: "sys_inv poll_sys_init"
  by (simp add: sys_inv_def poll_sys_init_def feed_init_def)

text \<open>
  Claim C9.  \<open>poll\<close> called while the in-flight flag is set returns at once: it
  initiates no fetch, logs the skip and leaves every field of the feed as it was.  The body
  of the timer then goes on to \<open>schedulePoll\<close>, which arms the timer of the next regular
  cycle and changes nothing else; nothing records the skipped cycle.  In every run of the
  feed from its initial state, whatever the order of timer firings, fetch completions and
  calls of \<open>start\<close> and \<open>stop\<close>, at most one fetch is pending, one is pending exactly
  when the flag is set, and a step initiates a fetch only when none is pending: the fetch
  of a poll never starts before the poll before it has completed.
\<close>

theorem poll_no_overlap:
  "(inFlight f \<longrightarrow> poll_begin f = (f, [PollSkipped], False)) \<and>
   (inFlight (theFeed s) \<longrightarrow>
      sys_step srt pf env s TimerFires
        = s\<lparr>theFeed := schedulePoll env (theFeed s), pollLog := pollLog s @ [PollSkipped]\<rparr> \<and>
      fetchesStarted (sys_step srt pf env s TimerFires) = fetchesStarted s \<and>
      fetchesPending (sys_step srt pf env s TimerFires) = fetchesPending s \<and>
      inFlight (schedulePoll env (theFeed s)) = inFlight (theFeed s) \<and>
      isRunning (schedulePoll env (theFeed s)) = isRunning (theFeed s) \<and>
      consecutiveErrors (schedulePoll env (theFeed s)) = consecutiveErrors (theFeed s) \<and>
      currentBackoffMs (schedulePoll env (theFeed s)) = currentBackoffMs (theFeed s)) \<and>
   fetchesPending (sys_run srt pf env poll_sys_init as) \<le> 1 \<and>
   (inFlight (theFeed (sys_run srt pf env poll_sys_init as))
      \<longleftrightarrow> fetchesPending (sys_run srt pf env poll_sys_init as) = 1) \<and>
   (fetchesStarted (sys_step srt pf env (sys_run srt pf env poll_sys_init as) a)
      \<noteq> fetchesStarted (sys_run srt pf env poll_sys_init as) \<longrightarrow>
      fetchesPending (sys_run srt pf env poll_sys_init as) = 0 \<and>
      a = TimerFires \<and>
      fetchesStarted (sys_step srt pf env (sys_run srt pf env poll_sys_init as) a)
        = fetchesStarted (sys_run srt pf env poll_sys_init as) + 1)"
proof -
  have inv: "sys_inv (sys_run srt pf env poll_sys_init as)"
    using sys_inv_init by (rule sys_run_inv)
  have 1: "inFlight f \<longrightarrow> poll_begin f = (f, [PollSkipped], False)"
    by (simp add: poll_begin_def)
  have 2: "inFlight (theFeed s) \<longrightarrow>
      sys_step srt pf env s TimerFires
        = s\<lparr>theFeed := schedulePoll env (theFeed s), pollLog := pollLog s @ [PollSkipped]\<rparr> \<and>
      fetchesStarted (sys_step srt pf env s TimerFires) = fetchesStarted s \<and>
      fetchesPending (sys_step srt pf env s TimerFires) = fetchesPending s \<and>
      inFlight (schedulePoll env (theFeed s)) = inFlight (theFeed s) \<and>
      isRunning (schedulePoll env (theFeed s)) = isRunning (theFeed s) \<and>
      consecutiveErrors (schedulePoll env (theFeed s)) = consecutiveErrors (theFeed s) \<and>
      currentBackoffMs (schedulePoll env (theFeed s)) = currentBackoffMs (theFeed s)"
    by (simp add: poll_begin_def schedulePoll_def Let_def)
  have 3: "fetchesPending (sys_run srt pf env poll_sys_init as) \<le> 1"
    using inv by (simp add: sys_inv_def)
  have 4: "inFlight (theFeed (sys_run srt pf env poll_sys_init as))
      \<longleftrightarrow> fetchesPending (sys_run srt pf env poll_sys_init as) = 1"
    using inv by (simp add: sys_inv_def)
  have 5: "fetchesStarted (sys_step srt pf env (sys_run srt pf env poll_sys_init as) a)
      \<noteq> fetchesStarted (sys_run srt pf env poll_sys_init as) \<longrightarrow>
      fetchesPending (sys_run srt pf env poll_sys_init as) = 0 \<and>
      a = TimerFires \<and>
      fetchesStarted (sys_step srt pf env (sys_run srt pf env poll_sys_init as) a)
        = fetchesStarted (sys_run srt pf env poll_sys_init as) + 1"
    using inv
    by (cases a) (auto simp: sys_inv_def poll_begin_def start_def stop_def split_beta
        split: if_splits)
  from 1 2 3 4 5 show ?thesis by blast
qed

lemma ex_run_state:
  "sys_run stable_sort ex_parse default_env poll_sys_init [CallStart, TimerFires, CallStop, CallStart]
   = \<lparr> theFeed = \<lparr> inFlight = True, isRunning = True, consecutiveErrors = 0,
                    currentBackoffMs = 0, pollTimer = Some 5000 \<rparr>,
       fetchesPending = 1, fetchesStarted = 1,
       pollLog = [FeedStarted, FeedStopped, FeedStarted] \<rparr>"
  by (simp add: poll_eval)

theorem poll_no_overlap_witness:
  "inFlight (theFeed (sys_run stable_sort ex_parse default_env poll_sys_init
      [CallStart, TimerFires, CallStop, CallStart])) \<and>
   sys_step stable_sort ex_parse default_env
     (sys_run stable_sort ex_parse default_env poll_sys_init [CallStart, TimerFires, CallStop, CallStart])
     TimerFires
   = \<lparr> theFeed = \<lparr> inFlight = True, isRunning = True, consecutiveErrors = 0,
                    currentBackoffMs = 0, pollTimer = Some 5000 \<rparr>,
       fetchesPending = 1, fetchesStarted = 1,
       pollLog = [FeedStarted, FeedStopped, FeedStarted, PollSkipped] \<rparr> \<and>
   poll_begin (theFeed (sys_run stable_sort ex_parse default_env poll_sys_init
      [CallStart, TimerFires, CallStop, CallStart]))
   = (theFeed (sys_run stable_sort ex_parse default_env poll_sys_init
        [CallStart, TimerFires, CallStop, CallStart]), [PollSkipped], False)"
  using poll_no_overlap [where srt = stable_sort and pf = ex_parse and env = default_env
      and f = "theFeed (sys_run stable_sort ex_parse default_env poll_sys_init
                 [CallStart, TimerFires, CallStop, CallStart])"
      and s = "sys_run stable_sort ex_parse default_env poll_sys_init
                 [CallStart, TimerFires, CallStop, CallStart]"
      and as = "[CallStart, TimerFires, CallStop, CallStart]" and a = TimerFires]
  unfolding ex_run_state
  by (simp add: poll_begin_def schedulePoll_def default_env_def Let_def)

end
